theory Spec2Isabelle
  imports Main "HOL-Library.Multiset"
begin

section \<open>Data model of backup.go\<close>

text \<open>
  The two structs of the program. Go strings are byte sequences and \<open>len\<close> counts
  bytes, as \<open>length\<close> does on a \<open>string\<close>. The fields \<open>Name\<close> and \<open>Id\<close> of \<open>Disk\<close>
  are written \<open>DName\<close> and \<open>DId\<close>, the plain names being those of \<open>Snapshot\<close>. A Go
  \<open>int\<close> is an \<open>int\<close> here: the program computes with lengths and with the limit only,
  far from the 64-bit bounds.
\<close>

record Snapshot =
  Name :: string
  Id :: string

record Disk =
  DName :: string
  DId :: string
  Zone :: string
  Snapshots :: "Snapshot list"

text \<open>The fields of \<open>time.Now()\<close> that the program reads.\<close>

record Time =
  Year :: nat
  Month :: nat
  Day :: nat
  Hour :: nat
  Minute :: nat

text \<open>
  A Go run-time panic (index or slice bounds out of range) is a value: every index
  expression and every slice expression of the source is checked in the model.
\<close>

datatype panic = IndexOutOfRange | SliceOutOfRange

definition Max :: "int \<Rightarrow> int \<Rightarrow> int" where
  "Max x y = (if x > y then x else y)"

definition index :: "'a list \<Rightarrow> int \<Rightarrow> panic + 'a" where
  "index xs i =
     (if 0 \<le> i \<and> i < int (length xs) then Inr (xs ! nat i) else Inl IndexOutOfRange)"

definition slice :: "'a list \<Rightarrow> int \<Rightarrow> int \<Rightarrow> panic + 'a list" where
  "slice xs lo hi =
     (if 0 \<le> lo \<and> lo \<le> hi \<and> hi \<le> int (length xs)
      then Inr (take (nat (hi - lo)) (drop (nat lo) xs))
      else Inl SliceOutOfRange)"

section \<open>Library functions used by the name synthesizer\<close>

text \<open>Decimal digits of a natural number, as \<open>%d\<close> prints them.\<close>

fun decimal :: "nat \<Rightarrow> string" where
  "decimal n =
     (if n < 10 then [char_of (48 + n)]
      else decimal (n div 10) @ [char_of (48 + n mod 10)])"

declare decimal.simps [simp del]

text \<open>\<open>%0wd\<close> of a non-negative integer: zero padding on the left up to width \<open>w\<close>.\<close>

definition fmtD :: "nat \<Rightarrow> nat \<Rightarrow> string" where
  "fmtD w n = replicate (w - length (decimal n)) (CHR ''0'') @ decimal n"

text \<open>
  \<open>strings.Split(s, sep)\<close> for a one-byte separator: the pieces between the separators,
  empty pieces included; a string without separator gives one piece.
\<close>

fun Split :: "string \<Rightarrow> char \<Rightarrow> string list" where
  "Split [] sep = [[]]"
| "Split (c # cs) sep =
     (if c = sep then [] # Split cs sep
      else (case Split cs sep of
              [] \<Rightarrow> [[c]]
            | piece # pieces \<Rightarrow> (c # piece) # pieces))"

text \<open>\<open>strings.Join(elems, sep)\<close>.\<close>

fun Join :: "string list \<Rightarrow> string \<Rightarrow> string" where
  "Join [] sep = []"
| "Join [x] sep = x"
| "Join (x # y # ys) sep = x @ sep @ Join (y # ys) sep"

text \<open>
  \<open>strings.Replace(s, old, new, -1)\<close> for a non-empty \<open>old\<close>: the non-overlapping
  occurrences of \<open>old\<close> are replaced from left to right, in one pass. (The program calls
  it with \<open>old = "--"\<close> only; Go treats an empty \<open>old\<close> differently, and the model leaves
  the string as it is there.)
\<close>

function Replace :: "string \<Rightarrow> string \<Rightarrow> string \<Rightarrow> string" where
  "Replace [] old new = []"
| "Replace (c # cs) old new =
     (if old \<noteq> [] \<and> take (length old) (c # cs) = old
      then new @ Replace (drop (length old) (c # cs)) old new
      else c # Replace cs old new)"
  by pat_completeness auto
termination
  by (relation "measure (\<lambda>(s, old, new). length s)") auto

section \<open>The name synthesizer (createSnapshotForDisk, lines 71 to 102)\<close>

definition timePart :: "Time \<Rightarrow> string" where
  "timePart now =
     fmtD 4 (Year now) @ fmtD 2 (Month now) @ fmtD 2 (Day now)
       @ fmtD 2 (Hour now) @ fmtD 2 (Minute now)"

definition maxSnapshotName :: int where
  "maxSnapshotName = 55"

text \<open>The variables the loop of lines 82 to 93 updates.\<close>

record loopState =
  spaceLeft :: int
  startPartEnd :: int
  endPartStart :: int

definition loopBody :: "string \<Rightarrow> string \<Rightarrow> loopState \<Rightarrow> loopState" where
  "loopBody startPart endPart st =
     (let startPartLen = int (length startPart);
          endPartLen = int (length endPart);
          st1 = (if spaceLeft st > startPartLen
                 then st\<lparr>startPartEnd := startPartEnd st + 1,
                         spaceLeft := spaceLeft st - (startPartLen + 1)\<rparr>
                 else st);
          st2 = (if spaceLeft st1 > endPartLen
                 then st1\<lparr>endPartStart := endPartStart st1 - 1,
                          spaceLeft := spaceLeft st1 - (endPartLen + 1)\<rparr>
                 else st1)
      in st2)"

function nameLoop :: "string list \<Rightarrow> int \<Rightarrow> loopState \<Rightarrow> panic + loopState" where
  "nameLoop namesParts namePartIndex st =
     (let namesPartsLen = int (length namesParts) in
      if namePartIndex < namesPartsLen then
        (case index namesParts namePartIndex of
           Inl p \<Rightarrow> Inl p
         | Inr startPart \<Rightarrow>
            (case index namesParts (namesPartsLen - namePartIndex - 1) of
               Inl p \<Rightarrow> Inl p
             | Inr endPart \<Rightarrow>
                 nameLoop namesParts (namePartIndex + 1) (loopBody startPart endPart st)))
      else Inr st)"
  by pat_completeness auto
termination
  by (relation "measure (\<lambda>(ps, i, st). nat (int (length ps) - i))") auto

declare nameLoop.simps [simp del]

definition snapshotName :: "string \<Rightarrow> string \<Rightarrow> Time \<Rightarrow> panic + string" where
  "snapshotName diskName diskId now =
     (let namesParts = Split diskName (CHR ''-'');
          namesPartsLen = int (length namesParts);
          st0 = \<lparr>spaceLeft = maxSnapshotName - int (length (timePart now)) - int (length diskId),
                 startPartEnd = 0, endPartStart = namesPartsLen\<rparr>
      in case nameLoop namesParts 0 st0 of
           Inl p \<Rightarrow> Inl p
         | Inr st \<Rightarrow>
            (let e = (if startPartEnd st \<ge> endPartStart st then namesPartsLen
                      else endPartStart st)
             in case slice namesParts 0 (startPartEnd st) of
                  Inl p \<Rightarrow> Inl p
                | Inr headParts \<Rightarrow>
                   (case slice namesParts e namesPartsLen of
                      Inl p \<Rightarrow> Inl p
                    | Inr tailParts \<Rightarrow>
                        Inr (Replace
                               (Join headParts ''-'' @ ''-'' @ Join tailParts ''-'' @ ''-''
                                  @ diskId @ ''-'' @ timePart now)
                               ''--'' ''-''))))"

section \<open>The provider, process exit and the command runner\<close>

text \<open>
  A command is the argument list handed to \<open>gcloud\<close>. The provider is a parameter of
  the model: given the commands run so far and the next command, it answers with the
  combined output and the error of \<open>cmd.CombinedOutput()\<close> (\<open>None\<close> is \<open>nil\<close>).
\<close>

type_synonym command = "string list"

type_synonym provider = "command list \<Rightarrow> command \<Rightarrow> string \<times> string option"

text \<open>
  How a piece of the program ends: it returns a value, the process exits
  (\<open>log.Fatal\<close> prints and calls \<open>os.Exit(1)\<close>), a goroutine panics, or \<open>main\<close> waits
  for ever on a channel that no task writes. Each outcome carries the commands that
  have been run up to that point.
\<close>

datatype 'a outcome =
    Returns 'a "command list"
  | Exits "command list"
  | Panics panic "command list"
  | Blocks "command list"

fun andThen :: "'a outcome \<Rightarrow> ('a \<Rightarrow> command list \<Rightarrow> 'b outcome) \<Rightarrow> 'b outcome" where
  "andThen (Returns a c) f = f a c"
| "andThen (Exits c) f = Exits c"
| "andThen (Panics p c) f = Panics p c"
| "andThen (Blocks c) f = Blocks c"

fun callsOf :: "'a outcome \<Rightarrow> command list" where
  "callsOf (Returns a c) = c"
| "callsOf (Exits c) = c"
| "callsOf (Panics p c) = c"
| "callsOf (Blocks c) = c"

definition log_Fatal :: "command list \<Rightarrow> unit outcome" where
  "log_Fatal c = Exits c"

text \<open>
  Lines 33 to 43. The \<open>return\<close> of line 39 follows \<open>log.Fatal\<close> in the source and is
  kept in the model at the same place.
\<close>

definition getCommandResult ::
  "provider \<Rightarrow> command \<Rightarrow> command list \<Rightarrow> (string \<times> string option) outcome" where
  "getCommandResult prov args c =
     (case prov c args of
        (cmdOut, cmdErr) \<Rightarrow>
          (case cmdErr of
             Some e \<Rightarrow>
               andThen (log_Fatal (c @ [args]))
                 (\<lambda>_ c'. Returns ([], Some (''Command error: `'' @ Join args '' '' @ ''`'')) c')
           | None \<Rightarrow> Returns (cmdOut, None) (c @ [args])))"

section \<open>The inventory loader\<close>

text \<open>
  \<open>json.Unmarshal\<close> is library code, taken as a parameter: a decoder either rejects
  text that is not valid JSON (Unmarshal checks the syntax of the whole input first and
  then leaves the target as it was), or decodes a value, possibly with a type error.
\<close>

datatype 'a decoded = SyntaxError | Decoded 'a "string option"

definition json_Unmarshal :: "(string \<Rightarrow> 'a decoded) \<Rightarrow> string \<Rightarrow> 'a \<Rightarrow> 'a \<times> string option" where
  "json_Unmarshal dec data target =
     (case dec data of
        SyntaxError \<Rightarrow> (target, Some ''invalid character'')
      | Decoded v err \<Rightarrow> (v, err))"

text \<open>
  Everything outside the program: the provider, the two JSON decoders, the clock read by
  the creation task of the i-th disk, the order in which the creation tasks of n disks
  run and deliver their snapshot, and the order in which n cleaned disks arrive on the
  channel \<open>oldSnapshotsDeleted\<close> (both orders are lists of disk positions).
\<close>

record env =
  provider :: provider
  decodeDisks :: "string \<Rightarrow> Disk list decoded"
  decodeSnapshots :: "string \<Rightarrow> Snapshot list decoded"
  clock :: "nat \<Rightarrow> Time"
  sched :: "nat \<Rightarrow> nat list"
  arrival :: "nat \<Rightarrow> nat list"

definition listDisksCmd :: "string \<Rightarrow> command" where
  "listDisksCmd filterArg =
     [''beta'', ''compute'', ''disks'', ''list'', ''--filter'', filterArg, ''--format'', ''json'']"

definition listSnapshotsCmd :: "Disk \<Rightarrow> command" where
  "listSnapshotsCmd disk =
     [''beta'', ''compute'', ''snapshots'', ''list'', ''--sort-by'', ''~creationTimestamp'',
      ''--filter'', ''sourceDiskId = '' @ DId disk, ''--format'', ''json'']"

definition createCmd :: "Disk \<Rightarrow> string \<Rightarrow> command" where
  "createCmd disk name =
     [''beta'', ''compute'', ''disks'', ''snapshot'', DName disk, ''--zone'', Zone disk,
      ''--snapshot-names'', name]"

definition deleteCmd :: "Snapshot \<Rightarrow> command" where
  "deleteCmd snapshot = [''beta'', ''compute'', ''snapshots'', ''delete'', Name snapshot]"

text \<open>Lines 45 to 55: the result of \<open>json.Unmarshal\<close> is not looked at.\<close>

definition getDisksToSnapshot ::
  "env \<Rightarrow> string \<Rightarrow> command list \<Rightarrow> (Disk list \<times> string option) outcome" where
  "getDisksToSnapshot env filterArg c =
     (let disks = [] in
      andThen (getCommandResult (provider env) (listDisksCmd filterArg) c)
        (\<lambda>(cmdListDisksOut, err) c'.
           case err of
             Some e \<Rightarrow> Returns (disks, Some e) c'
           | None \<Rightarrow>
               Returns (fst (json_Unmarshal (decodeDisks env) cmdListDisksOut disks), None) c'))"

text \<open>Lines 57 to 67.\<close>

definition getDiskSnapshots ::
  "env \<Rightarrow> Disk \<Rightarrow> command list \<Rightarrow> (Snapshot list \<times> string option) outcome" where
  "getDiskSnapshots env disk c =
     (let snapshots = [] in
      andThen (getCommandResult (provider env) (listSnapshotsCmd disk) c)
        (\<lambda>(cmdSnapshotsOut, err) c'.
           case err of
             Some e \<Rightarrow> Returns (snapshots, Some e) c'
           | None \<Rightarrow>
               Returns (fst (json_Unmarshal (decodeSnapshots env) cmdSnapshotsOut snapshots), None)
                 c'))"

text \<open>Lines 154 to 167 of \<open>main\<close>: one listing per disk, in the order of the disks.\<close>

fun loadSnapshots :: "env \<Rightarrow> Disk list \<Rightarrow> command list \<Rightarrow> Disk list outcome" where
  "loadSnapshots env [] c = Returns [] c"
| "loadSnapshots env (disk # disks) c =
     andThen (getDiskSnapshots env disk c)
       (\<lambda>(snapshots, snapshotsErr) c'.
          case snapshotsErr of
            Some e \<Rightarrow> andThen (log_Fatal c') (\<lambda>_ c''. Returns [] c'')
          | None \<Rightarrow>
              andThen (loadSnapshots env disks c')
                (\<lambda>rest c''. Returns (disk\<lparr>Snapshots := snapshots\<rparr> # rest) c''))"

section \<open>Creation (createSnapshotForDisk and lines 174 to 195 of main)\<close>

text \<open>
  Lines 69 to 111. \<open>now\<close> is the value of \<open>time.Now()\<close> in this call. The snapshot
  literal of line 102 sets the name only, so the id is the empty string in both modes.
\<close>

definition createSnapshotForDisk ::
  "env \<Rightarrow> Time \<Rightarrow> Disk \<Rightarrow> bool \<Rightarrow> command list \<Rightarrow> (Snapshot \<times> string option) outcome" where
  "createSnapshotForDisk env now disk dryRun c =
     (case snapshotName (DName disk) (DId disk) now of
        Inl p \<Rightarrow> Panics p c
      | Inr name \<Rightarrow>
          (let snapshot = \<lparr>Name = name, Id = []\<rparr> in
           if dryRun then Returns (snapshot, None) c
           else
             andThen (getCommandResult (provider env) (createCmd disk name) c)
               (\<lambda>(cmdOut, err) c'. Returns (snapshot, err) c')))"

text \<open>
  The goroutine of lines 176 to 184 for the disk at position \<open>i\<close>: what it returns is
  what it sends on the channel \<open>snapshotsCreated\<close>.
\<close>

definition createTask :: "env \<Rightarrow> bool \<Rightarrow> Disk list \<Rightarrow> nat \<Rightarrow> command list \<Rightarrow> Snapshot outcome" where
  "createTask env dryRun disks i c =
     andThen (createSnapshotForDisk env (clock env i) (disks ! i) dryRun c)
       (\<lambda>(snapshot, snapshotErr) c'.
          case snapshotErr of
            Some e \<Rightarrow> andThen (log_Fatal c') (\<lambda>_ c''. Returns snapshot c'')
          | None \<Rightarrow> Returns snapshot c')"

text \<open>
  The tasks run concurrently. The model runs them one after the other in the order
  \<open>order\<close> (a list of disk positions; a position that names no disk starts no task) and
  returns the content of the channel, in the order of arrival.
\<close>

fun createTasks ::
  "env \<Rightarrow> bool \<Rightarrow> Disk list \<Rightarrow> nat list \<Rightarrow> command list \<Rightarrow> Snapshot list outcome" where
  "createTasks env dryRun disks [] c = Returns [] c"
| "createTasks env dryRun disks (i # order) c =
     (if i < length disks then
        andThen (createTask env dryRun disks i c)
          (\<lambda>snapshot c'.
             andThen (createTasks env dryRun disks order c')
               (\<lambda>rest c''. Returns (snapshot # rest) c''))
      else createTasks env dryRun disks order c)"

text \<open>
  Lines 186 to 194: the disk at position \<open>diskIndex\<close> takes the next snapshot that
  arrives on the channel, at index 0 of a new slice, before a copy of its old
  snapshots. \<open>None\<close>: the channel has nothing more to deliver and \<open>main\<close> waits.
\<close>

fun fanIn :: "Disk list \<Rightarrow> Snapshot list \<Rightarrow> Disk list option" where
  "fanIn [] channel = Some []"
| "fanIn (diskBackuped # disks) [] = None"
| "fanIn (diskBackuped # disks) (snapshotCreated # channel) =
     (case fanIn disks channel of
        None \<Rightarrow> None
      | Some rest \<Rightarrow>
          Some (diskBackuped\<lparr>Snapshots := snapshotCreated # Snapshots diskBackuped\<rparr> # rest))"

definition createPhase ::
  "env \<Rightarrow> bool \<Rightarrow> Disk list \<Rightarrow> nat list \<Rightarrow> command list
     \<Rightarrow> (Disk list \<times> Snapshot list) outcome" where
  "createPhase env dryRun disks order c =
     andThen (createTasks env dryRun disks order c)
       (\<lambda>channel c'.
          case fanIn disks channel of
            None \<Rightarrow> Blocks c'
          | Some disks' \<Rightarrow> Returns (disks', take (length disks) channel) c')"

section \<open>Retention (deleteSnapshot and lines 200 to 234 of main)\<close>

text \<open>Lines 113 to 121.\<close>

definition deleteSnapshot ::
  "env \<Rightarrow> Snapshot \<Rightarrow> bool \<Rightarrow> command list \<Rightarrow> string option outcome" where
  "deleteSnapshot env snapshot dryRun c =
     (if dryRun then Returns None c
      else
        andThen (getCommandResult (provider env) (deleteCmd snapshot) c)
          (\<lambda>(cmdOut, err) c'. Returns err c'))"

text \<open>
  The loop of lines 214 to 223 starts one task per index from \<open>limit\<close> on; the argument
  of each task, \<open>disk.Snapshots[snapshotIndex]\<close>, is evaluated by the loop itself. The
  function returns the snapshots the tasks are started with.
\<close>

function deletionCandidates :: "Snapshot list \<Rightarrow> int \<Rightarrow> panic + Snapshot list" where
  "deletionCandidates snapshots snapshotIndex =
     (if snapshotIndex < int (length snapshots) then
        (case index snapshots snapshotIndex of
           Inl p \<Rightarrow> Inl p
         | Inr snapshotToDelete \<Rightarrow>
             (case deletionCandidates snapshots (snapshotIndex + 1) of
                Inl p \<Rightarrow> Inl p
              | Inr rest \<Rightarrow> Inr (snapshotToDelete # rest)))
      else Inr [])"
  by pat_completeness auto
termination
  by (relation "measure (\<lambda>(xs, i). nat (int (length xs) - i))") auto

declare deletionCandidates.simps [simp del]

text \<open>
  Lines 203 to 212: what is scheduled for one disk. A disk with \<open>diff <= 0\<close> goes to the
  channel \<open>oldSnapshotsDeleted\<close> at once, with no task.
\<close>

definition scheduleDisk :: "int \<Rightarrow> Disk \<Rightarrow> panic + Snapshot list" where
  "scheduleDisk limit diskToClean =
     (let diff = int (length (Snapshots diskToClean)) - limit in
      if diff \<le> 0 then Inr [] else deletionCandidates (Snapshots diskToClean) limit)"

fun scheduleDisks :: "int \<Rightarrow> Disk list \<Rightarrow> panic + (Disk \<times> Snapshot list) list" where
  "scheduleDisks limit [] = Inr []"
| "scheduleDisks limit (disk # disks) =
     (case scheduleDisk limit disk of
        Inl p \<Rightarrow> Inl p
      | Inr candidates \<Rightarrow>
          (case scheduleDisks limit disks of
             Inl p \<Rightarrow> Inl p
           | Inr rest \<Rightarrow> Inr ((disk, candidates) # rest)))"

text \<open>The goroutine of lines 215 to 222: it returns what it sends on its channel.\<close>

definition deleteTask :: "env \<Rightarrow> bool \<Rightarrow> Snapshot \<Rightarrow> command list \<Rightarrow> Snapshot outcome" where
  "deleteTask env dryRun snapshotToDelete c =
     andThen (deleteSnapshot env snapshotToDelete dryRun c)
       (\<lambda>snapshotDeleteErr c'.
          case snapshotDeleteErr of
            Some e \<Rightarrow> andThen (log_Fatal c') (\<lambda>_ c''. Returns snapshotToDelete c'')
          | None \<Rightarrow> Returns snapshotToDelete c')"

text \<open>
  The deletion tasks of one disk run concurrently, and all of them are started (lines
  214 to 223) before a result is read (lines 224 to 227). The model lists their commands
  in the order in which the tasks are started. When a deletion fails the process exits;
  the tasks started after the failing one have run their command by then, whatever the
  provider answers them. The result of a disk is the list of snapshots whose deletion
  was confirmed.
\<close>

fun deleteTasks :: "env \<Rightarrow> bool \<Rightarrow> Snapshot list \<Rightarrow> command list \<Rightarrow> Snapshot list outcome" where
  "deleteTasks env dryRun [] c = Returns [] c"
| "deleteTasks env dryRun (snapshot # snapshots) c =
     (case deleteTask env dryRun snapshot c of
        Returns snapshotDeleted c' \<Rightarrow>
          andThen (deleteTasks env dryRun snapshots c')
            (\<lambda>rest c''. Returns (snapshotDeleted # rest) c'')
      | Exits c' \<Rightarrow> Exits (c' @ map deleteCmd snapshots)
      | Panics p c' \<Rightarrow> Panics p c'
      | Blocks c' \<Rightarrow> Blocks c')"

text \<open>
  The same for the disks: the loop of lines 203 to 230 starts the goroutine of every
  disk before line 231 reads a result, so the deletions of the later disks have been
  issued too when the process exits.
\<close>

definition startedDeletes :: "(Disk \<times> Snapshot list) list \<Rightarrow> command list" where
  "startedDeletes plan = concat (map (\<lambda>(disk, candidates). map deleteCmd candidates) plan)"

fun cleanDisks ::
  "env \<Rightarrow> bool \<Rightarrow> (Disk \<times> Snapshot list) list \<Rightarrow> command list
     \<Rightarrow> (Disk \<times> Snapshot list) list outcome" where
  "cleanDisks env dryRun [] c = Returns [] c"
| "cleanDisks env dryRun ((disk, candidates) # plan) c =
     (case deleteTasks env dryRun candidates c of
        Returns deleted c' \<Rightarrow>
          andThen (cleanDisks env dryRun plan c')
            (\<lambda>rest c''. Returns ((disk, deleted) # rest) c'')
      | Exits c' \<Rightarrow> Exits (c' @ startedDeletes plan)
      | Panics p c' \<Rightarrow> Panics p c'
      | Blocks c' \<Rightarrow> Blocks c')"

text \<open>
  Lines 231 to 234: \<open>main\<close> reads one disk per disk of the run from
  \<open>oldSnapshotsDeleted\<close>, in the order of arrival, which is \<open>order\<close> (a position that
  names no disk delivers nothing). \<open>None\<close>: the channel has nothing more to deliver
  and \<open>main\<close> waits.
\<close>

definition cleanedFanIn :: "nat \<Rightarrow> 'a list \<Rightarrow> nat list \<Rightarrow> 'a list option" where
  "cleanedFanIn n sent order =
     (let channel = map (\<lambda>i. sent ! i) (filter (\<lambda>i. i < length sent) order)
      in if length channel < n then None else Some (take n channel))"

text \<open>Line 233: the line reported for a disk taken from \<open>oldSnapshotsDeleted\<close>.\<close>

definition cleanedLine :: "int \<Rightarrow> Disk \<Rightarrow> string \<times> int" where
  "cleanedLine limit diskCleaned =
     (DName diskCleaned, Max 0 (int (length (Snapshots diskCleaned)) - limit))"

text \<open>
  What a complete run has logged and done: the disks after the creation phase, the
  snapshots in the order of the lines \<open>Created snapshot\<close>, their number, and, in the order of the
  lines \<open>Cleaned disk\<close>, each disk with its deleted snapshots and the line logged for it.
\<close>

record report =
  disksBackuped :: "Disk list"
  created :: "Snapshot list"
  createdCount :: int
  deleted :: "(Disk \<times> Snapshot list) list"
  cleaned :: "(string \<times> int) list"

text \<open>
  Lines 200 to 234: the tasks of all disks are scheduled and run, and \<open>main\<close> then reads
  the cleaned disks and logs one line for each.
\<close>

definition deletePhase ::
  "env \<Rightarrow> bool \<Rightarrow> int \<Rightarrow> Disk list \<Rightarrow> command list
     \<Rightarrow> ((Disk \<times> Snapshot list) list \<times> (string \<times> int) list) outcome" where
  "deletePhase env dryRun limit disks c =
     (case scheduleDisks limit disks of
        Inl p \<Rightarrow> Panics p c
      | Inr plan \<Rightarrow>
          andThen (cleanDisks env dryRun plan c)
            (\<lambda>sent c'.
               case cleanedFanIn (length disks) sent (arrival env (length disks)) of
                 None \<Rightarrow> Blocks c'
               | Some results \<Rightarrow>
                   Returns (results, map (\<lambda>(disk, ss). cleanedLine limit disk) results) c'))"

text \<open>Lines 172 to 236: creation, and only then retention, on a loaded inventory.\<close>

definition run ::
  "env \<Rightarrow> int \<Rightarrow> bool \<Rightarrow> Disk list \<Rightarrow> nat list \<Rightarrow> command list \<Rightarrow> report outcome" where
  "run env limit dryRun disks order c =
     andThen (createPhase env dryRun disks order c)
       (\<lambda>(disks', snapshotsCreated) c'.
          andThen (deletePhase env dryRun limit disks' c')
            (\<lambda>(results, lines) c''.
               Returns \<lparr>disksBackuped = disks', created = snapshotsCreated,
                        createdCount = int (length disks), deleted = results,
                        cleaned = lines\<rparr> c''))"

datatype mainReturn = NoDiskToSnapshot | AfterFatal | BackupComplete report

definition main :: "env \<Rightarrow> string \<Rightarrow> int \<Rightarrow> bool \<Rightarrow> mainReturn outcome" where
  "main env filterArg limit dryRun =
     andThen (getDisksToSnapshot env filterArg [])
       (\<lambda>(disks, disksErr) c.
          case disksErr of
            Some e \<Rightarrow> andThen (log_Fatal c) (\<lambda>_ c'. Returns AfterFatal c')
          | None \<Rightarrow>
              if length disks = 0 then Returns NoDiskToSnapshot c
              else
                andThen (loadSnapshots env disks c)
                  (\<lambda>disks c'.
                     andThen (run env limit dryRun disks (sched env (length disks)) c')
                       (\<lambda>r c''. Returns (BackupComplete r) c'')))"

section \<open>The commands of a run\<close>

text \<open>The two mutating commands are told from the listing commands by their first words.\<close>

definition isCreate :: "command \<Rightarrow> bool" where
  "isCreate cmd \<longleftrightarrow> take 4 cmd = [''beta'', ''compute'', ''disks'', ''snapshot'']"

definition isDelete :: "command \<Rightarrow> bool" where
  "isDelete cmd \<longleftrightarrow> take 4 cmd = [''beta'', ''compute'', ''snapshots'', ''delete'']"

definition isListing :: "command \<Rightarrow> bool" where
  "isListing cmd \<longleftrightarrow> \<not> isCreate cmd \<and> \<not> isDelete cmd"

fun exited :: "'a outcome \<Rightarrow> bool" where
  "exited (Exits c) = True"
| "exited other = False"

text \<open>
  \<open>succeeded prov c cmds\<close>: run after the commands \<open>c\<close>, each of \<open>cmds\<close> is answered
  without error. \<open>failedCreate prov c cmds\<close>: one of \<open>cmds\<close> is a snapshot creation
  that is answered with an error.
\<close>

fun succeeded :: "provider \<Rightarrow> command list \<Rightarrow> command list \<Rightarrow> bool" where
  "succeeded prov c [] = True"
| "succeeded prov c (cmd # cmds) = (snd (prov c cmd) = None \<and> succeeded prov (c @ [cmd]) cmds)"

fun failedCreate :: "provider \<Rightarrow> command list \<Rightarrow> command list \<Rightarrow> bool" where
  "failedCreate prov c [] = False"
| "failedCreate prov c (cmd # cmds) =
     ((isCreate cmd \<and> snd (prov c cmd) \<noteq> None) \<or> failedCreate prov (c @ [cmd]) cmds)"

text \<open>
  \<open>issues prov P c out\<close>: started after the commands \<open>c\<close>, a piece of the program that
  ends with \<open>out\<close> has run only commands that satisfy \<open>P\<close>, and all of them were
  answered without error unless the process has exited.
\<close>

definition issues :: "provider \<Rightarrow> (command \<Rightarrow> bool) \<Rightarrow> command list \<Rightarrow> 'a outcome \<Rightarrow> bool" where
  "issues prov P c out \<longleftrightarrow>
     (\<exists>news. callsOf out = c @ news \<and> (\<forall>cmd \<in> set news. P cmd) \<and>
             (\<not> exited out \<longrightarrow> succeeded prov c news))"

text \<open>\<open>synthesized env disks i s\<close>: \<open>s\<close> is the snapshot record made for the disk at position \<open>i\<close>.\<close>

definition synthesized :: "env \<Rightarrow> Disk list \<Rightarrow> nat \<Rightarrow> Snapshot \<Rightarrow> bool" where
  "synthesized env disks i snapshot \<longleftrightarrow>
     i < length disks \<and> Id snapshot = [] \<and>
     snapshotName (DName (disks ! i)) (DId (disks ! i)) (clock env i) = Inr (Name snapshot)"

section \<open>Concrete inputs\<close>

definition t0 :: Time where
  "t0 = \<lparr>Year = 2024, Month = 1, Day = 15, Hour = 12, Minute = 30\<rparr>"

definition longId :: string where
  "longId = replicate 56 (CHR ''7'')"

definition s1 :: Snapshot where "s1 = \<lparr>Name = ''s1'', Id = ''101''\<rparr>"

definition s2 :: Snapshot where "s2 = \<lparr>Name = ''s2'', Id = ''102''\<rparr>"

definition s3 :: Snapshot where "s3 = \<lparr>Name = ''s3'', Id = ''103''\<rparr>"

definition diskA :: Disk where
  "diskA = \<lparr>DName = ''prod-orders-eu-west-1'', DId = ''1234567890123456789'',
             Zone = ''europe-west1-b'', Snapshots = [s3, s2, s1]\<rparr>"

definition diskB :: Disk where
  "diskB = \<lparr>DName = ''db'', DId = ''42'', Zone = ''europe-west1-b'', Snapshots = []\<rparr>"

definition newA :: Snapshot where
  "newA = \<lparr>Name = ''prod-orders-eu-west-1234567890123456789-202401151230'', Id = []\<rparr>"

definition newB :: Snapshot where
  "newB = \<lparr>Name = ''db-42-202401151230'', Id = []\<rparr>"

definition okProvider :: provider where
  "okProvider h cmd = ([], None)"

definition failProvider :: provider where
  "failProvider h cmd =
     ([], if isCreate cmd \<and> take 1 (drop 4 cmd) = [''db''] then Some ''exit status 1'' else None)"

definition envOk :: env where
  "envOk = \<lparr>provider = okProvider,
             decodeDisks = (\<lambda>out. Decoded [diskB] None),
             decodeSnapshots = (\<lambda>out. Decoded [s3, s2, s1] None),
             clock = (\<lambda>i. t0), sched = (\<lambda>n. rev [0..<n]),
             arrival = (\<lambda>n. rev [0..<n])\<rparr>"

definition envFail :: env where
  "envFail = envOk\<lparr>provider := failProvider\<rparr>"

definition envBadJson :: env where
  "envBadJson = envOk\<lparr>decodeDisks := (\<lambda>out. SyntaxError), decodeSnapshots := (\<lambda>out. SyntaxError)\<rparr>"

section \<open>Properties of the name synthesizer\<close>

lemma index_Inr:
  "0 \<le> i \<Longrightarrow> i < int (length xs) \<Longrightarrow> index xs i = Inr (xs ! nat i)"
  by (simp add: index_def)

lemma slice_Inr:
  "0 \<le> lo \<Longrightarrow> lo \<le> hi \<Longrightarrow> hi \<le> int (length xs) \<Longrightarrow>
   slice xs lo hi = Inr (take (nat (hi - lo)) (drop (nat lo) xs))"
  by (simp add: slice_def)

lemma loopBody_startPartEnd:
  "startPartEnd st \<le> startPartEnd (loopBody a b st) \<and>
   startPartEnd (loopBody a b st) \<le> startPartEnd st + 1"
  by (simp add: loopBody_def Let_def)

lemma loopBody_endPartStart:
  "endPartStart st - 1 \<le> endPartStart (loopBody a b st) \<and>
   endPartStart (loopBody a b st) \<le> endPartStart st"
  by (simp add: loopBody_def Let_def)

lemma loopBody_no_space: "spaceLeft st \<le> 0 \<Longrightarrow> loopBody a b st = st"
  by (simp add: loopBody_def Let_def)

text \<open>
  The loop never reads outside \<open>namesParts\<close>: at step \<open>i\<close> the head window ends at most
  at \<open>i\<close> and the tail window starts at least at \<open>n - i\<close>.
\<close>

lemma nameLoop_total:
  "0 \<le> i \<Longrightarrow> i \<le> int (length ps) \<Longrightarrow> 0 \<le> startPartEnd st \<Longrightarrow> startPartEnd st \<le> i \<Longrightarrow>
   int (length ps) - i \<le> endPartStart st \<Longrightarrow> endPartStart st \<le> int (length ps) \<Longrightarrow>
   \<exists>st'. nameLoop ps i st = Inr st' \<and> 0 \<le> startPartEnd st' \<and> startPartEnd st' \<le> int (length ps)
      \<and> 0 \<le> endPartStart st' \<and> endPartStart st' \<le> int (length ps)"
proof (induction ps i st rule: nameLoop.induct)
  case (1 ps i st)
  show ?case
  proof (cases "i < int (length ps)")
    case False
    with "1.prems" show ?thesis by (simp add: nameLoop.simps)
  next
    case True
    let ?a = "ps ! nat i" and ?b = "ps ! nat (int (length ps) - i - 1)"
    let ?st = "loopBody ?a ?b st"
    have ia: "index ps i = Inr ?a" using True "1.prems" by (simp add: index_Inr)
    have ib: "index ps (int (length ps) - i - 1) = Inr ?b"
      using True "1.prems" by (simp add: index_Inr)
    have step: "nameLoop ps i st = nameLoop ps (i + 1) ?st"
      using True ia ib by (subst nameLoop.simps) (simp add: Let_def)
    have "\<exists>st'. nameLoop ps (i + 1) ?st = Inr st' \<and> 0 \<le> startPartEnd st'
        \<and> startPartEnd st' \<le> int (length ps)
        \<and> 0 \<le> endPartStart st' \<and> endPartStart st' \<le> int (length ps)"
    proof (rule "1.IH" [OF refl True ia ib])
      show "0 \<le> i + 1" using "1.prems" by simp
      show "i + 1 \<le> int (length ps)" using True by simp
      show "0 \<le> startPartEnd ?st"
        using loopBody_startPartEnd [of st ?a ?b] "1.prems" by linarith
      show "startPartEnd ?st \<le> i + 1"
        using loopBody_startPartEnd [of st ?a ?b] "1.prems" by linarith
      show "int (length ps) - (i + 1) \<le> endPartStart ?st"
        using loopBody_endPartStart [of st ?a ?b] "1.prems" by linarith
      show "endPartStart ?st \<le> int (length ps)"
        using loopBody_endPartStart [of st ?a ?b] "1.prems" by linarith
    qed
    with step show ?thesis by simp
  qed
qed

text \<open>With no space left at the start, no segment is admitted.\<close>

lemma nameLoop_no_space:
  "0 \<le> i \<Longrightarrow> spaceLeft st \<le> 0 \<Longrightarrow> nameLoop ps i st = Inr st"
proof (induction ps i st rule: nameLoop.induct)
  case (1 ps i st)
  show ?case
  proof (cases "i < int (length ps)")
    case False
    then show ?thesis by (simp add: nameLoop.simps)
  next
    case True
    let ?a = "ps ! nat i" and ?b = "ps ! nat (int (length ps) - i - 1)"
    have ia: "index ps i = Inr ?a" using True "1.prems" by (simp add: index_Inr)
    have ib: "index ps (int (length ps) - i - 1) = Inr ?b"
      using True "1.prems" by (simp add: index_Inr)
    have step: "nameLoop ps i st = nameLoop ps (i + 1) (loopBody ?a ?b st)"
      using True ia ib by (subst nameLoop.simps) (simp add: Let_def)
    have same: "loopBody ?a ?b st = st" using "1.prems" by (simp add: loopBody_no_space)
    have "nameLoop ps (i + 1) (loopBody ?a ?b st) = Inr (loopBody ?a ?b st)"
      by (rule "1.IH" [OF refl True ia ib]) (use "1.prems" same in simp_all)
    with step same show ?thesis by simp
  qed
qed

lemma length_Replace:
  "length new \<le> length old \<Longrightarrow> length (Replace s old new) \<le> length s"
proof (induction s old new rule: Replace.induct)
  case (1 old new)
  then show ?case by simp
next
  case (2 c cs old new)
  show ?case
  proof (cases "old \<noteq> [] \<and> take (length old) (c # cs) = old")
    case True
    then have "length (take (length old) (c # cs)) = length old" by simp
    then have le: "length old \<le> length (c # cs)" by (simp add: min_def split: if_splits)
    have "length (Replace (drop (length old) (c # cs)) old new)
            \<le> length (drop (length old) (c # cs))"
      using "2.IH"(1) True "2.prems" by blast
    with le "2.prems" True show ?thesis by simp
  next
    case False
    with "2.IH"(2) "2.prems" show ?thesis by auto
  qed
qed

lemma snapshotName_eq:
  "\<exists>st. nameLoop (Split diskName (CHR ''-'')) 0
           \<lparr>spaceLeft = maxSnapshotName - int (length (timePart now)) - int (length diskId),
            startPartEnd = 0, endPartStart = int (length (Split diskName (CHR ''-'')))\<rparr> = Inr st
     \<and> snapshotName diskName diskId now =
         Inr (Replace
                (Join (take (nat (startPartEnd st)) (Split diskName (CHR ''-''))) ''-'' @ ''-''
                 @ Join (drop (nat (if startPartEnd st \<ge> endPartStart st
                                    then int (length (Split diskName (CHR ''-'')))
                                    else endPartStart st))
                           (Split diskName (CHR ''-''))) ''-''
                 @ ''-'' @ diskId @ ''-'' @ timePart now)
                ''--'' ''-'')"
proof -
  let ?ps = "Split diskName (CHR ''-'')"
  let ?n = "int (length ?ps)"
  let ?st0 = "\<lparr>spaceLeft = maxSnapshotName - int (length (timePart now)) - int (length diskId),
                 startPartEnd = 0, endPartStart = ?n\<rparr>"
  obtain st where loop: "nameLoop ?ps 0 ?st0 = Inr st"
    and s: "0 \<le> startPartEnd st" "startPartEnd st \<le> ?n"
    and e: "0 \<le> endPartStart st" "endPartStart st \<le> ?n"
    using nameLoop_total [of 0 ?ps ?st0] by auto
  let ?e = "if startPartEnd st \<ge> endPartStart st then ?n else endPartStart st"
  have h: "slice ?ps 0 (startPartEnd st) = Inr (take (nat (startPartEnd st)) ?ps)"
    using s by (simp add: slice_Inr)
  have t: "slice ?ps ?e ?n = Inr (drop (nat ?e) ?ps)"
    using e by (simp add: slice_Inr)
  have "snapshotName diskName diskId now =
          Inr (Replace (Join (take (nat (startPartEnd st)) ?ps) ''-'' @ ''-''
                 @ Join (drop (nat ?e) ?ps) ''-'' @ ''-'' @ diskId @ ''-'' @ timePart now)
                ''--'' ''-'')"
    unfolding snapshotName_def Let_def loop using h t by simp
  with loop show ?thesis by blast
qed

lemma snapshotName_returns: "\<exists>name. snapshotName diskName diskId now = Inr name"
  using snapshotName_eq [of diskName now diskId] by blast

lemma snapshotName_no_room:
  assumes "maxSnapshotName \<le> int (length (timePart now)) + int (length diskId)"
  shows "snapshotName diskName diskId now
           = Inr (Replace (''--'' @ diskId @ ''-'' @ timePart now) ''--'' ''-'')"
proof -
  let ?ps = "Split diskName (CHR ''-'')"
  let ?st0 = "\<lparr>spaceLeft = maxSnapshotName - int (length (timePart now)) - int (length diskId),
                 startPartEnd = 0, endPartStart = int (length ?ps)\<rparr>"
  have "nameLoop ?ps 0 ?st0 = Inr ?st0"
    using assms by (intro nameLoop_no_space) simp_all
  with snapshotName_eq [of diskName now diskId] show ?thesis by auto
qed

lemma timePart_t0: "timePart t0 = ''202401151230''"
  by code_simp

text \<open>
  C1 (the code departs from the claim). With an id of 19 characters, so that
  \<open>len(id) + 12 + 3 = 34 <= 55\<close>, the synthesizer returns a name of 70 characters for
  the disk \<open>kubernetesdynamicpersistentvolume-pvc-a\<close> (the first segment is refused, the
  two later ones are counted, and the head window of two segments then takes the
  refused one), a name of 56 characters for a disk whose first and last segments use
  up the budget exactly (the three hyphens that join the four parts are counted as
  two), and a name that keeps a double hyphen for the disk \<open>a---b\<close> (one pass of
  \<open>Replace\<close> turns three hyphens into two).
\<close>

theorem snapshotName_failing_inputs:
  "snapshotName ''kubernetesdynamicpersistentvolume-pvc-a'' ''1234567890123456789'' t0
     = Inr ''kubernetesdynamicpersistentvolume-pvc-1234567890123456789-202401151230''
   \<and> length ''kubernetesdynamicpersistentvolume-pvc-1234567890123456789-202401151230'' = 70
   \<and> snapshotName ''aaaaaaaaaaa-cccccccccccccccccccccccc-bbbbbbbbbbb'' ''1234567890123456789'' t0
     = Inr ''aaaaaaaaaaa-bbbbbbbbbbb-1234567890123456789-202401151230''
   \<and> length ''aaaaaaaaaaa-bbbbbbbbbbb-1234567890123456789-202401151230'' = 56
   \<and> snapshotName ''a---b'' ''1234567890123456789'' t0
     = Inr ''a--b-1234567890123456789-202401151230''"
  by code_simp

text \<open>
  C5, as the claim states it, fails: an id of 56 characters gives a name of 70
  characters.
\<close>

theorem snapshotName_budget_counterexample:
  "snapshotName ''a'' longId t0 = Inr (''-'' @ longId @ ''-202401151230'') \<and>
   \<not> length (''-'' @ longId @ ''-202401151230'') \<le> 55"
  unfolding longId_def by code_simp

text \<open>
  C5, amended. For every disk name, disk id and time the synthesizer returns a name:
  no index and no slice expression of lines 82 to 99 is out of range. The id is never
  shortened: when the id and the time part leave no room
  (\<open>len(timePart) + len(diskId) >= 55\<close>), no segment of the disk name is admitted and
  the name is \<open>--<id>-<timePart>\<close> with \<open>--\<close> replaced, of at most
  \<open>len(diskId) + len(timePart) + 2\<close> characters.
\<close>

theorem snapshotName_total:
  "\<exists>name. snapshotName diskName diskId now = Inr name \<and>
     (maxSnapshotName \<le> int (length (timePart now)) + int (length diskId) \<longrightarrow>
        name = Replace (''--'' @ diskId @ ''-'' @ timePart now) ''--'' ''-'' \<and>
        length name \<le> length diskId + length (timePart now) + 2)"
proof (cases "maxSnapshotName \<le> int (length (timePart now)) + int (length diskId)")
  case False
  with snapshotName_returns [of diskName diskId now] show ?thesis by auto
next
  case True
  have "length (Replace (diskId @ ''-'' @ timePart now) ''--'' ''-'')
          \<le> length (diskId @ ''-'' @ timePart now)"
    by (rule length_Replace) simp
  then have "length (Replace (''--'' @ diskId @ ''-'' @ timePart now) ''--'' ''-'')
               \<le> length diskId + length (timePart now) + 2"
    by simp
  with snapshotName_no_room [OF True, of diskName] show ?thesis by simp
qed

theorem snapshotName_total_witness:
  "maxSnapshotName \<le> int (length (timePart t0)) + int (length longId) \<and>
   snapshotName ''a'' longId t0 = Inr (Replace (''--'' @ longId @ ''-'' @ timePart t0) ''--'' ''-'')"
proof -
  have h: "maxSnapshotName \<le> int (length (timePart t0)) + int (length longId)"
    by (simp add: timePart_t0 longId_def maxSnapshotName_def)
  with snapshotName_total [of "''a''" longId t0] show ?thesis by auto
qed

section \<open>Properties of the command runner\<close>

lemma andThen_Returns:
  "andThen m f = Returns b c' \<longleftrightarrow> (\<exists>a c. m = Returns a c \<and> f a c = Returns b c')"
  by (cases m) auto

lemma getCommandResult_eq:
  "getCommandResult prov args c =
     (case snd (prov c args) of
        None \<Rightarrow> Returns (fst (prov c args), None) (c @ [args])
      | Some e \<Rightarrow> Exits (c @ [args]))"
  by (cases "prov c args") (auto simp: getCommandResult_def log_Fatal_def split: option.splits)

lemma getCommandResult_Returns:
  "getCommandResult prov args c = Returns (cmdOut, err) c' \<Longrightarrow>
   err = None \<and> c' = c @ [args] \<and> prov c args = (cmdOut, None)"
  by (cases "prov c args") (auto simp: getCommandResult_eq split: option.splits)

lemma getCommandResult_ok:
  "prov c args = (out, None) \<Longrightarrow> getCommandResult prov args c = Returns (out, None) (c @ [args])"
  by (simp add: getCommandResult_eq)

text \<open>
  C10. When the command fails, \<open>getCommandResult\<close> does not return: the process exits at
  \<open>log.Fatal\<close>, before the \<open>return\<close> of line 39. So whenever \<open>getCommandResult\<close> returns,
  its error is \<open>nil\<close>, and so is the error that each of its four callers returns: the
  branches that test these errors (lines 49, 61, 144, 158, 179 and 217) are never taken.
\<close>

theorem returned_error_is_nil:
  "(snd (prov c args) \<noteq> None \<longrightarrow> getCommandResult prov args c = Exits (c @ [args]))
   \<and> (getCommandResult prov args c = Returns (cmdOut, err) c0 \<longrightarrow> err = None)
   \<and> (getDisksToSnapshot env filterArg c = Returns (disks, err1) c1 \<longrightarrow> err1 = None)
   \<and> (getDiskSnapshots env disk c = Returns (snapshots, err2) c2 \<longrightarrow> err2 = None)
   \<and> (createSnapshotForDisk env now disk dryRun c = Returns (snapshot, err3) c3 \<longrightarrow> err3 = None)
   \<and> (deleteSnapshot env snapshot dryRun c = Returns err4 c4 \<longrightarrow> err4 = None)"
proof (intro conjI impI)
  assume "snd (prov c args) \<noteq> None"
  then show "getCommandResult prov args c = Exits (c @ [args])"
    by (auto simp: getCommandResult_eq)
next
  assume "getCommandResult prov args c = Returns (cmdOut, err) c0"
  then show "err = None" by (simp add: getCommandResult_Returns)
next
  assume "getDisksToSnapshot env filterArg c = Returns (disks, err1) c1"
  then show "err1 = None"
    by (auto simp: getDisksToSnapshot_def andThen_Returns split: option.splits
          dest: getCommandResult_Returns)
next
  assume "getDiskSnapshots env disk c = Returns (snapshots, err2) c2"
  then show "err2 = None"
    by (auto simp: getDiskSnapshots_def andThen_Returns split: option.splits
          dest: getCommandResult_Returns)
next
  assume "createSnapshotForDisk env now disk dryRun c = Returns (snapshot, err3) c3"
  then show "err3 = None"
    by (auto simp: createSnapshotForDisk_def Let_def andThen_Returns
          split: sum.splits if_splits dest: getCommandResult_Returns)
next
  assume "deleteSnapshot env snapshot dryRun c = Returns err4 c4"
  then show "err4 = None"
    by (auto simp: deleteSnapshot_def andThen_Returns split: if_splits
          dest: getCommandResult_Returns)
qed

lemma provider_envOk: "provider envOk = okProvider"
  by (simp add: envOk_def)

lemma provider_envFail: "provider envFail = failProvider"
  by (simp add: envFail_def envOk_def)

lemma snapshotName_diskB: "snapshotName (DName diskB) (DId diskB) t0 = Inr (Name newB)"
  unfolding diskB_def newB_def by code_simp

lemma snapshotName_diskA: "snapshotName (DName diskA) (DId diskA) t0 = Inr (Name newA)"
  unfolding diskA_def newA_def by code_simp

theorem returned_error_is_nil_witness:
  "snd (failProvider [] (createCmd diskB (Name newB))) \<noteq> None
   \<and> getCommandResult failProvider (createCmd diskB (Name newB)) []
       = Exits [createCmd diskB (Name newB)]
   \<and> getCommandResult okProvider (deleteCmd s1) [] = Returns ([], None) [deleteCmd s1]
   \<and> getDisksToSnapshot envOk ''name = db'' [] = Returns ([diskB], None) [listDisksCmd ''name = db'']
   \<and> getDiskSnapshots envOk diskB [] = Returns ([s3, s2, s1], None) [listSnapshotsCmd diskB]
   \<and> createSnapshotForDisk envOk t0 diskB False []
       = Returns (newB, None) [createCmd diskB (Name newB)]
   \<and> deleteSnapshot envOk s1 False [] = Returns None [deleteCmd s1]"
proof -
  have f: "snd (failProvider [] (createCmd diskB (Name newB))) \<noteq> None"
    by (simp add: failProvider_def isCreate_def createCmd_def diskB_def)
  have g: "getCommandResult okProvider (deleteCmd s1) [] = Returns ([], None) [deleteCmd s1]"
    by (simp add: getCommandResult_ok okProvider_def)
  have d: "getDisksToSnapshot envOk ''name = db'' []
             = Returns ([diskB], None) [listDisksCmd ''name = db'']"
    by (simp add: getDisksToSnapshot_def provider_envOk getCommandResult_ok okProvider_def
          json_Unmarshal_def envOk_def)
  have s: "getDiskSnapshots envOk diskB [] = Returns ([s3, s2, s1], None) [listSnapshotsCmd diskB]"
    by (simp add: getDiskSnapshots_def provider_envOk getCommandResult_ok okProvider_def
          json_Unmarshal_def envOk_def)
  have n: "newB = \<lparr>Name = Name newB, Id = []\<rparr>" by (simp add: newB_def)
  have c: "createSnapshotForDisk envOk t0 diskB False []
             = Returns (newB, None) [createCmd diskB (Name newB)]"
    using n by (simp add: createSnapshotForDisk_def snapshotName_diskB provider_envOk
                  getCommandResult_ok okProvider_def)
  have x: "deleteSnapshot envOk s1 False [] = Returns None [deleteCmd s1]"
    by (simp add: deleteSnapshot_def provider_envOk getCommandResult_ok okProvider_def)
  from f g d s c x
    returned_error_is_nil [of failProvider "[]" "createCmd diskB (Name newB)"]
  show ?thesis by simp
qed

section \<open>Properties of the inventory loader\<close>

text \<open>
  C9. When a listing command succeeds and its output is not valid JSON, the loader
  returns the empty list it started with and a \<open>nil\<close> error. For the disk listing,
  \<open>main\<close> then finds no disk to snapshot and returns after that one command; for a
  snapshot listing, the disk is given no snapshots and the run goes on.
\<close>

theorem unparseable_listing:
  "(provider env c (listDisksCmd filterArg) = (out, None) \<and> decodeDisks env out = SyntaxError
      \<longrightarrow> getDisksToSnapshot env filterArg c = Returns ([], None) (c @ [listDisksCmd filterArg]))
   \<and> (provider env [] (listDisksCmd filterArg) = (out, None) \<and> decodeDisks env out = SyntaxError
      \<longrightarrow> main env filterArg limit dryRun = Returns NoDiskToSnapshot [listDisksCmd filterArg])
   \<and> (provider env c (listSnapshotsCmd disk) = (out', None) \<and> decodeSnapshots env out' = SyntaxError
      \<longrightarrow> getDiskSnapshots env disk c = Returns ([], None) (c @ [listSnapshotsCmd disk])
          \<and> loadSnapshots env [disk] c
               = Returns [disk\<lparr>Snapshots := []\<rparr>] (c @ [listSnapshotsCmd disk]))"
proof (intro conjI impI)
  assume "provider env c (listDisksCmd filterArg) = (out, None) \<and> decodeDisks env out = SyntaxError"
  then show "getDisksToSnapshot env filterArg c = Returns ([], None) (c @ [listDisksCmd filterArg])"
    by (simp add: getDisksToSnapshot_def getCommandResult_ok json_Unmarshal_def)
next
  assume "provider env [] (listDisksCmd filterArg) = (out, None) \<and> decodeDisks env out = SyntaxError"
  then have "getDisksToSnapshot env filterArg [] = Returns ([], None) [listDisksCmd filterArg]"
    by (simp add: getDisksToSnapshot_def getCommandResult_ok json_Unmarshal_def)
  then show "main env filterArg limit dryRun = Returns NoDiskToSnapshot [listDisksCmd filterArg]"
    by (simp add: main_def)
next
  assume "provider env c (listSnapshotsCmd disk) = (out', None)
            \<and> decodeSnapshots env out' = SyntaxError"
  then show g: "getDiskSnapshots env disk c = Returns ([], None) (c @ [listSnapshotsCmd disk])"
    by (simp add: getDiskSnapshots_def getCommandResult_ok json_Unmarshal_def)
  then show "loadSnapshots env [disk] c
               = Returns [disk\<lparr>Snapshots := []\<rparr>] (c @ [listSnapshotsCmd disk])"
    by simp
qed

theorem unparseable_listing_witness:
  "provider envBadJson [] (listDisksCmd ''name = db'') = ([], None)
   \<and> decodeDisks envBadJson [] = SyntaxError
   \<and> main envBadJson ''name = db'' 7 False = Returns NoDiskToSnapshot [listDisksCmd ''name = db'']
   \<and> provider envBadJson [] (listSnapshotsCmd diskB) = ([], None)
   \<and> decodeSnapshots envBadJson [] = SyntaxError
   \<and> loadSnapshots envBadJson [diskB] [] = Returns [diskB\<lparr>Snapshots := []\<rparr>] [listSnapshotsCmd diskB]"
proof -
  have p: "provider envBadJson [] (listDisksCmd ''name = db'') = ([], None)"
          "provider envBadJson [] (listSnapshotsCmd diskB) = ([], None)"
    by (simp_all add: envBadJson_def envOk_def okProvider_def)
  have d: "decodeDisks envBadJson [] = SyntaxError" "decodeSnapshots envBadJson [] = SyntaxError"
    by (simp_all add: envBadJson_def)
  from p d unparseable_listing [of envBadJson "[]" "''name = db''" "[]" 7 False diskB "[]"]
  show ?thesis by simp
qed

section \<open>The commands issued by each part of a run\<close>

lemma succeeded_append:
  "succeeded prov c (xs @ ys) \<longleftrightarrow> succeeded prov c xs \<and> succeeded prov (c @ xs) ys"
  by (induction xs arbitrary: c) auto

lemma failedCreate_append:
  "failedCreate prov c (xs @ ys) \<longleftrightarrow> failedCreate prov c xs \<or> failedCreate prov (c @ xs) ys"
  by (induction xs arbitrary: c) auto

lemma succeeded_not_failed: "succeeded prov c xs \<Longrightarrow> \<not> failedCreate prov c xs"
  by (induction xs arbitrary: c) auto

lemma no_create_not_failed: "\<forall>cmd \<in> set xs. \<not> isCreate cmd \<Longrightarrow> \<not> failedCreate prov c xs"
  by (induction xs arbitrary: c) auto

lemma issues_Returns: "issues prov P c (Returns a c)"
  by (simp add: issues_def)

lemma issues_andThen:
  assumes m: "issues prov P c m"
    and f: "\<And>a c1. m = Returns a c1 \<Longrightarrow> issues prov P c1 (f a c1)"
  shows "issues prov P c (andThen m f)"
proof (cases m)
  case (Returns a c1)
  from m Returns obtain n1 where n1: "c1 = c @ n1" "\<forall>cmd \<in> set n1. P cmd" "succeeded prov c n1"
    by (auto simp: issues_def)
  from f [OF Returns] obtain n2 where n2: "callsOf (f a c1) = c1 @ n2" "\<forall>cmd \<in> set n2. P cmd"
    "\<not> exited (f a c1) \<longrightarrow> succeeded prov c1 n2"
    by (auto simp: issues_def)
  have "callsOf (andThen m f) = c @ (n1 @ n2)" using Returns n1 n2 by simp
  moreover have "\<forall>cmd \<in> set (n1 @ n2). P cmd" using n1 n2 by auto
  moreover have "\<not> exited (andThen m f) \<longrightarrow> succeeded prov c (n1 @ n2)"
    using Returns n1 n2 by (simp add: succeeded_append)
  ultimately show ?thesis unfolding issues_def by blast
next
  case (Exits c1)
  with m show ?thesis by (simp add: issues_def)
next
  case (Panics p c1)
  with m show ?thesis by (simp add: issues_def)
next
  case (Blocks c1)
  with m show ?thesis by (simp add: issues_def)
qed

lemma issues_getCommandResult:
  "P args \<Longrightarrow> issues prov P c (getCommandResult prov args c)"
  by (auto simp: issues_def getCommandResult_eq split: option.splits)

lemma isCreate_createCmd: "isCreate (createCmd disk name)"
  by (simp add: isCreate_def createCmd_def)

lemma isDelete_deleteCmd: "isDelete (deleteCmd snapshot)"
  by (simp add: isDelete_def deleteCmd_def)

lemma not_both: "isCreate cmd \<Longrightarrow> \<not> isDelete cmd"
  by (auto simp: isCreate_def isDelete_def)

lemma issues_Panics: "issues prov P c (Panics p c)"
  by (simp add: issues_def)

lemma issues_Blocks: "issues prov P c (Blocks c)"
  by (simp add: issues_def)

lemma issues_log_Fatal: "issues prov P c (andThen (log_Fatal c) f)"
  by (simp add: log_Fatal_def issues_def)

lemma issues_createSnapshotForDisk:
  "issues (provider env) isCreate c (createSnapshotForDisk env now disk dryRun c)"
  unfolding createSnapshotForDisk_def Let_def
  by (auto split: sum.splits simp: issues_def[of _ _ c "Panics _ c"] 
      intro!: issues_Returns issues_andThen issues_getCommandResult isCreate_createCmd)

lemma issues_createTask:
  "issues (provider env) isCreate c (createTask env dryRun disks i c)"
  unfolding createTask_def
  by (rule issues_andThen [OF issues_createSnapshotForDisk])
     (auto split: option.splits intro: issues_Returns issues_log_Fatal)

lemma issues_createTasks:
  "issues (provider env) isCreate c (createTasks env dryRun disks order c)"
proof (induction order arbitrary: c)
  case Nil
  show ?case by (simp add: issues_Returns)
next
  case (Cons i order)
  show ?case
  proof (cases "i < length disks")
    case False
    then show ?thesis using Cons.IH by simp
  next
    case True
    have "issues (provider env) isCreate c
            (andThen (createTask env dryRun disks i c)
               (\<lambda>snapshot c'. andThen (createTasks env dryRun disks order c')
                  (\<lambda>rest c''. Returns (snapshot # rest) c'')))"
      by (intro issues_andThen issues_createTask Cons.IH issues_Returns)
    with True show ?thesis by simp
  qed
qed

lemma issues_createPhase:
  "issues (provider env) isCreate c (createPhase env dryRun disks order c)"
  unfolding createPhase_def
  by (rule issues_andThen [OF issues_createTasks])
     (auto split: option.splits intro: issues_Returns issues_Blocks)

lemma issues_deleteSnapshot:
  "issues (provider env) isDelete c (deleteSnapshot env snapshot dryRun c)"
  unfolding deleteSnapshot_def
  by (auto intro!: issues_Returns issues_andThen issues_getCommandResult isDelete_deleteCmd)

lemma issues_deleteTask:
  "issues (provider env) isDelete c (deleteTask env dryRun snapshot c)"
  unfolding deleteTask_def
  by (rule issues_andThen [OF issues_deleteSnapshot])
     (auto split: option.splits intro: issues_Returns issues_log_Fatal)

lemma issues_started:
  assumes m: "issues prov P c m"
    and f: "\<And>a c1. m = Returns a c1 \<Longrightarrow> issues prov P c1 (f a c1)"
    and ex: "\<forall>cmd \<in> set extra. P cmd"
  shows "issues prov P c
           (case m of
              Returns a c' \<Rightarrow> f a c'
            | Exits c' \<Rightarrow> Exits (c' @ extra)
            | Panics p c' \<Rightarrow> Panics p c'
            | Blocks c' \<Rightarrow> Blocks c')"
proof (cases m)
  case (Returns a c1)
  from issues_andThen [OF m f] Returns show ?thesis by simp
next
  case (Exits c1)
  from m Exits obtain n1 where "c1 = c @ n1" "\<forall>cmd \<in> set n1. P cmd"
    by (auto simp: issues_def)
  with ex have "callsOf (Exits (c1 @ extra) :: 'b outcome) = c @ (n1 @ extra)"
    and "\<forall>cmd \<in> set (n1 @ extra). P cmd"
    by auto
  then have "issues prov P c (Exits (c1 @ extra) :: 'b outcome)"
    unfolding issues_def by (intro exI [of _ "n1 @ extra"]) simp
  with Exits show ?thesis by simp
next
  case (Panics p c1)
  with m show ?thesis by (simp add: issues_def)
next
  case (Blocks c1)
  with m show ?thesis by (simp add: issues_def)
qed

lemma isDelete_startedDeletes: "\<forall>cmd \<in> set (startedDeletes plan). isDelete cmd"
  by (auto simp: startedDeletes_def isDelete_deleteCmd)

lemma issues_deleteTasks:
  "issues (provider env) isDelete c (deleteTasks env dryRun snapshots c)"
proof (induction snapshots arbitrary: c)
  case Nil
  show ?case by (simp add: issues_Returns)
next
  case (Cons s snapshots)
  have "\<forall>cmd \<in> set (map deleteCmd snapshots). isDelete cmd"
    by (simp add: isDelete_deleteCmd)
  then show ?case
    unfolding deleteTasks.simps
    by (intro issues_started issues_deleteTask issues_andThen Cons.IH issues_Returns)
qed

lemma issues_cleanDisks:
  "issues (provider env) isDelete c (cleanDisks env dryRun plan c)"
proof (induction plan arbitrary: c)
  case Nil
  show ?case by (simp add: issues_Returns)
next
  case (Cons p plan)
  obtain disk candidates where p: "p = (disk, candidates)" by (cases p)
  show ?case
    unfolding p cleanDisks.simps
    by (intro issues_started issues_deleteTasks issues_andThen Cons.IH issues_Returns
          isDelete_startedDeletes)
qed

lemma issues_deletePhase:
  "issues (provider env) isDelete c (deletePhase env dryRun limit disks c)"
  unfolding deletePhase_def
  by (auto split: sum.splits option.splits
        intro!: issues_Panics issues_andThen issues_cleanDisks issues_Returns issues_Blocks)

lemma callsOf_andThen_Returns:
  "(\<And>a c. \<exists>b. f a c = Returns b c) \<Longrightarrow> callsOf (andThen m f) = callsOf m"
  by (cases m) (auto, metis callsOf.simps(1))

lemma exited_andThen_Returns:
  "(\<And>a c. \<exists>b. f a c = Returns b c) \<Longrightarrow> exited (andThen m f) = exited m"
  by (cases m) (auto, metis exited.simps(2))

lemma run_after_create:
  "createPhase env dryRun disks order c = Returns (disks', snapshotsCreated) c1 \<Longrightarrow>
   callsOf (run env limit dryRun disks order c) = callsOf (deletePhase env dryRun limit disks' c1)
   \<and> exited (run env limit dryRun disks order c) = exited (deletePhase env dryRun limit disks' c1)"
  unfolding run_def
  by (simp add: callsOf_andThen_Returns exited_andThen_Returns split_beta)

lemma run_Returns:
  assumes "run env limit dryRun disks order c = Returns r c2"
  shows "\<exists>disks' snapshotsCreated c1 results lines.
           createPhase env dryRun disks order c = Returns (disks', snapshotsCreated) c1 \<and>
           deletePhase env dryRun limit disks' c1 = Returns (results, lines) c2 \<and>
           r = \<lparr>disksBackuped = disks', created = snapshotsCreated,
                 createdCount = int (length disks), deleted = results, cleaned = lines\<rparr>"
  using assms unfolding run_def by (auto simp: andThen_Returns)

section \<open>Properties of the creation phase\<close>

lemma fanIn_Some:
  "fanIn disks channel = Some disks' \<Longrightarrow>
   length disks \<le> length channel \<and>
   disks' = map2 (\<lambda>d s. d\<lparr>Snapshots := s # Snapshots d\<rparr>) disks channel"
proof (induction disks channel arbitrary: disks' rule: fanIn.induct)
  case (1 channel)
  then show ?case by simp
next
  case (2 diskBackuped disks)
  then show ?case by simp
next
  case (3 diskBackuped disks snapshotCreated channel)
  then show ?case by (auto split: option.splits)
qed

lemma createTask_Returns:
  "createTask env dryRun disks i c = Returns snapshot c' \<Longrightarrow> i < length disks \<Longrightarrow>
   synthesized env disks i snapshot"
  by (auto simp: createTask_def createSnapshotForDisk_def synthesized_def Let_def andThen_Returns
        log_Fatal_def split: sum.splits if_splits option.splits)

lemma createTasks_Returns:
  "createTasks env dryRun disks order c = Returns channel c' \<Longrightarrow>
   \<forall>s \<in> set channel. \<exists>i \<in> set order. synthesized env disks i s"
proof (induction order arbitrary: c channel c')
  case Nil
  then show ?case by simp
next
  case (Cons i order)
  show ?case
  proof (cases "i < length disks")
    case False
    with Cons.prems have "createTasks env dryRun disks order c = Returns channel c'" by simp
    from Cons.IH [OF this] show ?thesis by auto
  next
    case True
    with Cons.prems obtain s c1 rest where
      t: "createTask env dryRun disks i c = Returns s c1" and
      r: "createTasks env dryRun disks order c1 = Returns rest c'" and
      ch: "channel = s # rest"
      by (auto simp: andThen_Returns)
    from createTask_Returns [OF t True] Cons.IH [OF r] ch show ?thesis by auto
  qed
qed

lemma createPhase_Returns:
  assumes "createPhase env dryRun disks order c = Returns (disks', snapshotsCreated) c'"
  shows "length snapshotsCreated = length disks \<and>
         disks' = map2 (\<lambda>d s. d\<lparr>Snapshots := s # Snapshots d\<rparr>) disks snapshotsCreated \<and>
         (\<forall>s \<in> set snapshotsCreated. \<exists>i \<in> set order. synthesized env disks i s)"
proof -
  from assms obtain channel where
    t: "createTasks env dryRun disks order c = Returns channel c'" and
    f: "fanIn disks channel = Some disks'" and
    sc: "snapshotsCreated = take (length disks) channel"
    by (auto simp: createPhase_def andThen_Returns split: option.splits)
  from fanIn_Some [OF f] have len: "length disks \<le> length channel"
    and d': "disks' = map2 (\<lambda>d s. d\<lparr>Snapshots := s # Snapshots d\<rparr>) disks channel"
    by simp_all
  have "zip disks channel = zip disks (take (length disks) channel)"
    by (simp add: list_eq_iff_nth_eq)
  with d' sc have "disks' = map2 (\<lambda>d s. d\<lparr>Snapshots := s # Snapshots d\<rparr>) disks snapshotsCreated"
    by simp
  moreover have "length snapshotsCreated = length disks" using len sc by simp
  moreover have "\<forall>s \<in> set snapshotsCreated. \<exists>i \<in> set order. synthesized env disks i s"
    using createTasks_Returns [OF t] sc by (auto dest: in_set_takeD)
  ultimately show ?thesis by simp
qed

text \<open>
  C8. Whenever the creation phase is completed (so that the run reaches the deletion
  phase), every disk has exactly one snapshot more than before: index 0 holds a
  snapshot record made in this run (the k-th disk takes the k-th snapshot that arrived
  on the channel, which was synthesized for some disk of the run, not always for this
  one), and the old snapshots follow in their old order.
\<close>

theorem creation_prepends:
  assumes "createPhase env dryRun disks order c = Returns (disks', snapshotsCreated) c'"
  shows "length disks' = length disks \<and> length snapshotsCreated = length disks \<and>
         (\<forall>s \<in> set snapshotsCreated. \<exists>i \<in> set order. synthesized env disks i s) \<and>
         (\<forall>k < length disks.
            disks' ! k = (disks ! k)\<lparr>Snapshots := snapshotsCreated ! k # Snapshots (disks ! k)\<rparr> \<and>
            length (Snapshots (disks' ! k)) = length (Snapshots (disks ! k)) + 1 \<and>
            Snapshots (disks' ! k) ! 0 = snapshotsCreated ! k \<and>
            drop 1 (Snapshots (disks' ! k)) = Snapshots (disks ! k))"
proof -
  from createPhase_Returns [OF assms]
  have len: "length snapshotsCreated = length disks"
    and d': "disks' = map2 (\<lambda>d s. d\<lparr>Snapshots := s # Snapshots d\<rparr>) disks snapshotsCreated"
    and syn: "\<forall>s \<in> set snapshotsCreated. \<exists>i \<in> set order. synthesized env disks i s"
    by simp_all
  have l1: "length disks' = length disks" using len d' by simp
  have nth: "disks' ! k = (disks ! k)\<lparr>Snapshots := snapshotsCreated ! k # Snapshots (disks ! k)\<rparr>"
    if "k < length disks" for k
    using that len d' by simp
  show ?thesis using l1 len syn nth by simp
qed

lemma createTask_envOk_A:
  "createTask envOk False [diskA, diskB] 0 c = Returns newA (c @ [createCmd diskA (Name newA)])"
proof -
  have n: "newA = \<lparr>Name = Name newA, Id = []\<rparr>" by (simp add: newA_def)
  have t: "clock envOk 0 = t0" by (simp add: envOk_def)
  show ?thesis
    using n by (simp add: createTask_def createSnapshotForDisk_def t snapshotName_diskA
                  provider_envOk getCommandResult_ok okProvider_def)
qed

lemma createTask_envOk_B:
  "createTask envOk False [diskA, diskB] (Suc 0) c
     = Returns newB (c @ [createCmd diskB (Name newB)])"
proof -
  have n: "newB = \<lparr>Name = Name newB, Id = []\<rparr>" by (simp add: newB_def)
  have t: "clock envOk (Suc 0) = t0" by (simp add: envOk_def)
  show ?thesis
    using n by (simp add: createTask_def createSnapshotForDisk_def t snapshotName_diskB
                  provider_envOk getCommandResult_ok okProvider_def)
qed

lemma createPhase_envOk:
  "createPhase envOk False [diskA, diskB] [Suc 0, 0] []
     = Returns ([diskA\<lparr>Snapshots := newB # Snapshots diskA\<rparr>,
                 diskB\<lparr>Snapshots := newA # Snapshots diskB\<rparr>], [newB, newA])
         [createCmd diskB (Name newB), createCmd diskA (Name newA)]"
  by (simp add: createPhase_def createTask_envOk_A createTask_envOk_B)

theorem creation_prepends_witness:
  "createPhase envOk False [diskA, diskB] [Suc 0, 0] []
     = Returns ([diskA\<lparr>Snapshots := newB # Snapshots diskA\<rparr>,
                 diskB\<lparr>Snapshots := newA # Snapshots diskB\<rparr>], [newB, newA])
         [createCmd diskB (Name newB), createCmd diskA (Name newA)]
   \<and> length [diskA\<lparr>Snapshots := newB # Snapshots diskA\<rparr>,
              diskB\<lparr>Snapshots := newA # Snapshots diskB\<rparr>] = length [diskA, diskB]
   \<and> Snapshots ([diskA\<lparr>Snapshots := newB # Snapshots diskA\<rparr>,
                  diskB\<lparr>Snapshots := newA # Snapshots diskB\<rparr>] ! 0) ! 0 = [newB, newA] ! 0
   \<and> drop 1 (Snapshots ([diskA\<lparr>Snapshots := newB # Snapshots diskA\<rparr>,
                          diskB\<lparr>Snapshots := newA # Snapshots diskB\<rparr>] ! 0))
       = Snapshots ([diskA, diskB] ! 0)"
  using creation_prepends [OF createPhase_envOk] createPhase_envOk by simp

text \<open>
  C7. If, among the commands of a run, a snapshot creation is answered with an error,
  the run ends with the exit of the process, and none of its commands is a snapshot
  deletion.
\<close>

theorem creation_failure_is_fatal:
  assumes calls: "callsOf (run env limit dryRun disks order c) = c @ news"
    and failed: "failedCreate (provider env) c news"
  shows "run env limit dryRun disks order c = Exits (c @ news) \<and> (\<forall>cmd \<in> set news. \<not> isDelete cmd)"
proof -
  let ?o1 = "createPhase env dryRun disks order c"
  from issues_createPhase [of env c dryRun disks order] obtain n1 where
    n1: "callsOf ?o1 = c @ n1" "\<forall>cmd \<in> set n1. isCreate cmd"
        "\<not> exited ?o1 \<longrightarrow> succeeded (provider env) c n1"
    unfolding issues_def by blast
  show ?thesis
  proof (cases ?o1)
    case (Returns a c1)
    obtain disks' snapshotsCreated where a: "a = (disks', snapshotsCreated)" by (cases a)
    from Returns n1 have c1: "c1 = c @ n1" and ok1: "succeeded (provider env) c n1" by simp_all
    from issues_deletePhase [of env c1 dryRun limit disks'] obtain n2 where
      n2: "callsOf (deletePhase env dryRun limit disks' c1) = c1 @ n2" "\<forall>cmd \<in> set n2. isDelete cmd"
      unfolding issues_def by blast
    from run_after_create [of env dryRun disks order c disks' snapshotsCreated c1 limit] Returns a n2 c1
    have "callsOf (run env limit dryRun disks order c) = c @ n1 @ n2" by simp
    with calls have news: "news = n1 @ n2" by simp
    have "\<not> failedCreate (provider env) c n1" using ok1 by (rule succeeded_not_failed)
    moreover have "\<not> failedCreate (provider env) (c @ n1) n2"
      using n2(2) by (intro no_create_not_failed) (auto dest: not_both)
    ultimately have "\<not> failedCreate (provider env) c news"
      unfolding news by (simp add: failedCreate_append)
    with failed show ?thesis by simp
  next
    case (Exits cs)
    then have r: "run env limit dryRun disks order c = Exits cs" by (simp add: run_def)
    with calls have cs: "cs = c @ news" by simp
    from Exits n1 cs have "news = n1" by simp
    with n1(2) r cs show ?thesis by (auto dest: not_both)
  next
    case (Panics p cs)
    then have r: "run env limit dryRun disks order c = Panics p cs" by (simp add: run_def)
    with calls have cs: "cs = c @ news" by simp
    from Panics n1 cs have "news = n1" "succeeded (provider env) c n1" by simp_all
    with failed show ?thesis by (auto dest: succeeded_not_failed)
  next
    case (Blocks cs)
    then have r: "run env limit dryRun disks order c = Blocks cs" by (simp add: run_def)
    with calls have cs: "cs = c @ news" by simp
    from Blocks n1 cs have "news = n1" "succeeded (provider env) c n1" by simp_all
    with failed show ?thesis by (auto dest: succeeded_not_failed)
  qed
qed

lemma createTask_envFail_A:
  "createTask envFail False [diskA, diskB] 0 c = Returns newA (c @ [createCmd diskA (Name newA)])"
proof -
  have n: "newA = \<lparr>Name = Name newA, Id = []\<rparr>" by (simp add: newA_def)
  have t: "clock envFail 0 = t0" by (simp add: envFail_def envOk_def)
  have p: "failProvider c (createCmd diskA (Name newA)) = ([], None)"
    by (simp add: failProvider_def createCmd_def diskA_def)
  show ?thesis
    using n by (simp add: createTask_def createSnapshotForDisk_def t snapshotName_diskA
                  provider_envFail getCommandResult_ok p)
qed

lemma createTask_envFail_B:
  "createTask envFail False [diskA, diskB] (Suc 0) c = Exits (c @ [createCmd diskB (Name newB)])"
proof -
  have t: "clock envFail (Suc 0) = t0" by (simp add: envFail_def envOk_def)
  have p: "snd (failProvider c (createCmd diskB (Name newB))) = Some ''exit status 1''"
    by (simp add: failProvider_def createCmd_def diskB_def isCreate_def)
  show ?thesis
    by (simp add: createTask_def createSnapshotForDisk_def t snapshotName_diskB
          provider_envFail getCommandResult_eq p)
qed

lemma run_envFail:
  "run envFail 2 False [diskA, diskB] [0, Suc 0] []
     = Exits [createCmd diskA (Name newA), createCmd diskB (Name newB)]"
  by (simp add: run_def createPhase_def createTask_envFail_A createTask_envFail_B)

theorem creation_failure_is_fatal_witness:
  "callsOf (run envFail 2 False [diskA, diskB] [0, Suc 0] [])
     = [] @ [createCmd diskA (Name newA), createCmd diskB (Name newB)]
   \<and> failedCreate (provider envFail) []
         [createCmd diskA (Name newA), createCmd diskB (Name newB)]
   \<and> run envFail 2 False [diskA, diskB] [0, Suc 0] []
       = Exits ([] @ [createCmd diskA (Name newA), createCmd diskB (Name newB)])
   \<and> \<not> isDelete (createCmd diskA (Name newA)) \<and> \<not> isDelete (createCmd diskB (Name newB))"
proof -
  have calls: "callsOf (run envFail 2 False [diskA, diskB] [0, Suc 0] [])
                 = [] @ [createCmd diskA (Name newA), createCmd diskB (Name newB)]"
    by (simp add: run_envFail)
  have failed: "failedCreate (provider envFail) []
                  [createCmd diskA (Name newA), createCmd diskB (Name newB)]"
    by (simp add: provider_envFail failProvider_def isCreate_def createCmd_def diskB_def)
  from creation_failure_is_fatal [OF calls failed] calls failed show ?thesis by simp
qed

section \<open>Properties of the retention phase\<close>

lemma deletionCandidates_drop:
  "0 \<le> i \<Longrightarrow> deletionCandidates xs i = Inr (drop (nat i) xs)"
proof (induction xs i rule: deletionCandidates.induct)
  case (1 xs i)
  show ?case
  proof (cases "i < int (length xs)")
    case False
    then show ?thesis by (subst deletionCandidates.simps) simp
  next
    case True
    have ix: "index xs i = Inr (xs ! nat i)" using True "1.prems" by (simp add: index_Inr)
    have "deletionCandidates xs (i + 1) = Inr (drop (nat (i + 1)) xs)"
      using "1.IH" [OF True ix] "1.prems" by simp
    moreover have "nat (i + 1) = Suc (nat i)" using "1.prems" by simp
    moreover have "drop (nat i) xs = xs ! nat i # drop (Suc (nat i)) xs"
      using True "1.prems" by (simp add: Cons_nth_drop_Suc)
    ultimately show ?thesis using True ix by (subst deletionCandidates.simps) simp
  qed
qed

lemma deletionCandidates_negative:
  "i < 0 \<Longrightarrow> deletionCandidates xs i = Inl IndexOutOfRange"
  by (subst deletionCandidates.simps) (simp add: index_def)

lemma scheduleDisk_drop:
  "0 \<le> limit \<Longrightarrow> scheduleDisk limit disk = Inr (drop (nat limit) (Snapshots disk))"
  by (simp add: scheduleDisk_def Let_def deletionCandidates_drop)

lemma scheduleDisks_drop:
  "0 \<le> limit \<Longrightarrow>
   scheduleDisks limit disks = Inr (map (\<lambda>d. (d, drop (nat limit) (Snapshots d))) disks)"
  by (induction disks) (simp_all add: scheduleDisk_drop)

lemma drop_as_indices: "drop n xs = map (\<lambda>i. xs ! i) [n..<length xs]"
  by (simp add: list_eq_iff_nth_eq)

lemma deleteTask_dry: "deleteTask env True snapshot c = Returns snapshot c"
  by (simp add: deleteTask_def deleteSnapshot_def)

lemma deleteTask_Returns:
  "deleteTask env dryRun snapshot c = Returns x c' \<Longrightarrow>
   x = snapshot \<and> c' = c @ (if dryRun then [] else [deleteCmd snapshot])"
  by (auto simp: deleteTask_def deleteSnapshot_def andThen_Returns log_Fatal_def
        split: option.splits if_splits dest: getCommandResult_Returns)

lemma deleteTasks_dry: "deleteTasks env True snapshots c = Returns snapshots c"
  by (induction snapshots) (simp_all add: deleteTask_dry)

lemma deleteTasks_Returns:
  "deleteTasks env dryRun snapshots c = Returns xs c' \<Longrightarrow>
   xs = snapshots \<and> c' = c @ (if dryRun then [] else map deleteCmd snapshots)"
proof (induction snapshots arbitrary: c xs)
  case Nil
  then show ?case by simp
next
  case (Cons s snapshots)
  from Cons.prems obtain x c1 rest where
    t: "deleteTask env dryRun s c = Returns x c1" and
    r: "deleteTasks env dryRun snapshots c1 = Returns rest c'" and
    xs: "xs = x # rest"
    by (auto simp: andThen_Returns split: outcome.splits)
  from deleteTask_Returns [OF t] Cons.IH [OF r] xs show ?case by simp
qed

lemma cleanDisks_dry: "cleanDisks env True plan c = Returns plan c"
  by (induction plan) (auto simp: deleteTasks_dry)

lemma cleanDisks_Returns:
  "cleanDisks env dryRun plan c = Returns results c' \<Longrightarrow>
   results = plan \<and> c' = c @ (if dryRun then [] else startedDeletes plan)"
proof (induction plan arbitrary: c results)
  case Nil
  then show ?case by (simp add: startedDeletes_def)
next
  case (Cons p plan)
  obtain disk candidates where p: "p = (disk, candidates)" by (cases p)
  from Cons.prems obtain del c1 rest where
    t: "deleteTasks env dryRun candidates c = Returns del c1" and
    r: "cleanDisks env dryRun plan c1 = Returns rest c'" and
    res: "results = (disk, del) # rest"
    unfolding p by (auto simp: andThen_Returns split: outcome.splits)
  from deleteTasks_Returns [OF t] Cons.IH [OF r] res show ?case
    unfolding p by (simp add: startedDeletes_def)
qed

text \<open>
  When each disk arrives once on \<open>oldSnapshotsDeleted\<close>, \<open>main\<close> reads every disk that
  was sent, once.
\<close>

lemma cleanedFanIn_permutation:
  assumes "mset order = mset [0..<length sent]"
  shows "cleanedFanIn (length sent) sent order = Some (map (\<lambda>i. sent ! i) order)
         \<and> mset (map (\<lambda>i. sent ! i) order) = mset sent"
proof -
  from assms have "set order = set [0..<length sent]" by (rule mset_eq_setD)
  then have valid: "filter (\<lambda>i. i < length sent) order = order" by (auto simp: filter_id_conv)
  from assms have len: "length order = length sent"
    using mset_eq_length by fastforce
  have "mset (map (\<lambda>i. sent ! i) order) = image_mset (\<lambda>i. sent ! i) (mset order)" by simp
  also have "\<dots> = image_mset (\<lambda>i. sent ! i) (mset [0..<length sent])" using assms by simp
  also have "\<dots> = mset (map (\<lambda>i. sent ! i) [0..<length sent])" by simp
  also have "\<dots> = mset sent" by (simp add: map_nth)
  finally have "mset (map (\<lambda>i. sent ! i) order) = mset sent" .
  with valid len show ?thesis by (simp add: cleanedFanIn_def)
qed

lemma cleanedFanIn_Some:
  "cleanedFanIn n sent order = Some results \<Longrightarrow> set results \<subseteq> set sent \<and> length results = n"
  by (auto simp: cleanedFanIn_def Let_def split: if_splits dest!: in_set_takeD)

lemma deletePhase_Returns:
  assumes "0 \<le> limit"
    and "deletePhase env dryRun limit disks c = Returns (results, lines) c'"
  shows "cleanedFanIn (length disks) (map (\<lambda>d. (d, drop (nat limit) (Snapshots d))) disks)
           (arrival env (length disks)) = Some results
         \<and> lines = map (\<lambda>(disk, ss). cleanedLine limit disk) results
         \<and> c' = c @ (if dryRun then []
                      else startedDeletes (map (\<lambda>d. (d, drop (nat limit) (Snapshots d))) disks))"
proof -
  let ?plan = "map (\<lambda>d. (d, drop (nat limit) (Snapshots d))) disks"
  have p: "scheduleDisks limit disks = Inr ?plan" using assms(1) by (rule scheduleDisks_drop)
  from assms(2) obtain sent c1 where
    cd: "cleanDisks env dryRun ?plan c = Returns sent c1" and
    f: "(case cleanedFanIn (length disks) sent (arrival env (length disks)) of
           None \<Rightarrow> Blocks c1
         | Some results \<Rightarrow>
             Returns (results, map (\<lambda>(disk, ss). cleanedLine limit disk) results) c1)
        = Returns (results, lines) c'"
    unfolding deletePhase_def p by (auto simp: andThen_Returns)
  from cleanDisks_Returns [OF cd] have sent: "sent = ?plan"
    and c1: "c1 = c @ (if dryRun then [] else startedDeletes ?plan)"
    by simp_all
  from f sent c1 show ?thesis by (auto split: option.splits)
qed

lemma Max_max: "Max x y = max x y"
  by (simp add: Max_def max_def)

lemma Snapshots_diskA: "Snapshots diskA = [s3, s2, s1]"
  by (simp add: diskA_def)

lemma Snapshots_diskB: "Snapshots diskB = []"
  by (simp add: diskB_def)

lemma arrival_envOk_one: "arrival envOk (Suc 0) = [0]"
  by (simp add: envOk_def)

lemma cleanedFanIn_one: "cleanedFanIn (Suc 0) [x] [0] = Some [x]"
  by (simp add: cleanedFanIn_def)

text \<open>
  C4. For a retention limit \<open>limit >= 0\<close> (the domain the specification gives the
  limit), the snapshots scheduled for a disk that has more than \<open>limit\<close> snapshots
  after creation are those at the indices \<open>limit\<close> to \<open>len - 1\<close> of its newest-first
  sequence; for every disk they are the sequence without its first \<open>limit\<close> elements;
  with \<open>limit = 0\<close> the whole sequence is scheduled, so every snapshot that existed
  before the run is.
\<close>

theorem scheduled_are_the_oldest:
  assumes "0 \<le> limit"
  shows "(limit < int (length (Snapshots disk)) \<longrightarrow>
            scheduleDisk limit disk
              = Inr (map (\<lambda>i. Snapshots disk ! i) [nat limit..<length (Snapshots disk)]))
         \<and> scheduleDisks limit disks = Inr (map (\<lambda>d. (d, drop (nat limit) (Snapshots d))) disks)
         \<and> (limit = 0 \<longrightarrow>
              scheduleDisk limit (disk\<lparr>Snapshots := snapshotCreated # old\<rparr>)
                = Inr (snapshotCreated # old))"
proof (intro conjI impI)
  assume "limit < int (length (Snapshots disk))"
  show "scheduleDisk limit disk
          = Inr (map (\<lambda>i. Snapshots disk ! i) [nat limit..<length (Snapshots disk)])"
    using assms scheduleDisk_drop [of limit disk] drop_as_indices [of "nat limit" "Snapshots disk"]
    by simp
next
  show "scheduleDisks limit disks = Inr (map (\<lambda>d. (d, drop (nat limit) (Snapshots d))) disks)"
    using assms by (rule scheduleDisks_drop)
next
  assume "limit = 0"
  then show "scheduleDisk limit (disk\<lparr>Snapshots := snapshotCreated # old\<rparr>)
               = Inr (snapshotCreated # old)"
    by (simp add: scheduleDisk_drop)
qed
theorem scheduled_are_the_oldest_witness:
  "(0::int) \<le> 2
   \<and> 2 < int (length (Snapshots (diskA\<lparr>Snapshots := newA # Snapshots diskA\<rparr>)))
   \<and> scheduleDisk 2 (diskA\<lparr>Snapshots := newA # Snapshots diskA\<rparr>) = Inr [s2, s1]
   \<and> scheduleDisk 0 (diskA\<lparr>Snapshots := newA # [s3, s2, s1]\<rparr>) = Inr (newA # [s3, s2, s1])"
proof -
  have a: "scheduleDisk 2 (diskA\<lparr>Snapshots := newA # Snapshots diskA\<rparr>)
             = Inr (map (\<lambda>i. Snapshots (diskA\<lparr>Snapshots := newA # Snapshots diskA\<rparr>) ! i)
                      [nat 2..<length (Snapshots (diskA\<lparr>Snapshots := newA # Snapshots diskA\<rparr>))])"
    using scheduled_are_the_oldest
            [where limit = 2 and disk = "diskA\<lparr>Snapshots := newA # Snapshots diskA\<rparr>"]
    by (simp add: Snapshots_diskA)
  have u: "[2..<4] = [2, 3::nat]" by (simp add: upt_rec)
  have b: "scheduleDisk 0 (diskA\<lparr>Snapshots := newA # [s3, s2, s1]\<rparr>) = Inr (newA # [s3, s2, s1])"
    using scheduled_are_the_oldest
            [where limit = 0 and disk = diskA and snapshotCreated = newA and old = "[s3, s2, s1]"]
    by simp
  from a b u show ?thesis by (simp add: Snapshots_diskA)
qed

text \<open>
  C3, as the claim states it, fails for the limit 0: the run on the disk \<open>db\<close>, which
  has no snapshot, creates the snapshot \<open>db-42-202401151230\<close> and then deletes it.
\<close>

theorem created_is_deleted_counterexample:
  "run envOk 0 False [diskB] [0] []
     = Returns \<lparr>disksBackuped = [diskB\<lparr>Snapshots := [newB]\<rparr>], created = [newB],
                 createdCount = 1, deleted = [(diskB\<lparr>Snapshots := [newB]\<rparr>, [newB])],
                 cleaned = [(''db'', 1)]\<rparr>
         [createCmd diskB (Name newB), deleteCmd newB]"
proof -
  have n: "newB = \<lparr>Name = Name newB, Id = []\<rparr>" by (simp add: newB_def)
  have t: "clock envOk 0 = t0" by (simp add: envOk_def)
  have c: "createTask envOk False [diskB] 0 [] = Returns newB [createCmd diskB (Name newB)]"
    using n by (simp add: createTask_def createSnapshotForDisk_def t snapshotName_diskB
                  provider_envOk getCommandResult_ok okProvider_def)
  have d: "deleteTask envOk False newB c = Returns newB (c @ [deleteCmd newB])" for c
    by (simp add: deleteTask_def deleteSnapshot_def provider_envOk getCommandResult_ok
          okProvider_def)
  have s: "scheduleDisks 0 [diskB\<lparr>Snapshots := [newB]\<rparr>]
             = Inr [(diskB\<lparr>Snapshots := [newB]\<rparr>, [newB])]"
    using scheduleDisks_drop [of 0 "[diskB\<lparr>Snapshots := [newB]\<rparr>]"] by simp
  have l: "cleanedLine 0 (diskB\<lparr>Snapshots := [newB]\<rparr>) = (''db'', 1)"
    by (simp add: cleanedLine_def Max_def diskB_def)
  have cp: "createPhase envOk False [diskB] [0] []
              = Returns ([diskB\<lparr>Snapshots := [newB]\<rparr>], [newB]) [createCmd diskB (Name newB)]"
    by (simp add: createPhase_def c Snapshots_diskB)
  have dp: "deletePhase envOk False 0 [diskB\<lparr>Snapshots := [newB]\<rparr>] [createCmd diskB (Name newB)]
              = Returns ([(diskB\<lparr>Snapshots := [newB]\<rparr>, [newB])], [(''db'', 1)])
                  [createCmd diskB (Name newB), deleteCmd newB]"
    unfolding deletePhase_def s by (simp add: d l arrival_envOk_one cleanedFanIn_one)
  show ?thesis
    unfolding run_def cp by (simp add: dp)
qed

text \<open>
  C3, amended. For every retention limit \<open>limit >= 1\<close>, the snapshot that the creation
  phase has put at index 0 of a disk's sequence is not scheduled for deletion: what is
  scheduled for a disk is its old sequence, as it was before the creation phase, without
  its first \<open>limit - 1\<close> elements. This holds for every disk of every run whose creation
  phase is completed.
\<close>

theorem created_is_kept:
  assumes "1 \<le> limit"
  shows "scheduleDisk limit (disk\<lparr>Snapshots := snapshotCreated # old\<rparr>)
           = Inr (drop (nat (limit - 1)) old)
         \<and> (createPhase env dryRun disks order c = Returns (disks', snapshotsCreated') c' \<longrightarrow>
              scheduleDisks limit disks'
                = Inr (map2 (\<lambda>d' d. (d', drop (nat (limit - 1)) (Snapshots d))) disks' disks))"
proof (intro conjI impI)
  have n: "nat limit = Suc (nat (limit - 1))" using assms by simp
  show "scheduleDisk limit (disk\<lparr>Snapshots := snapshotCreated # old\<rparr>)
           = Inr (drop (nat (limit - 1)) old)"
    using assms n scheduleDisk_drop [of limit "disk\<lparr>Snapshots := snapshotCreated # old\<rparr>"]
    by simp
  assume "createPhase env dryRun disks order c = Returns (disks', snapshotsCreated') c'"
  from createPhase_Returns [OF this]
  have len: "length snapshotsCreated' = length disks"
    and d': "disks' = map2 (\<lambda>d s. d\<lparr>Snapshots := s # Snapshots d\<rparr>) disks snapshotsCreated'"
    by simp_all
  have "map (\<lambda>d. (d, drop (nat limit) (Snapshots d))) disks'
          = map2 (\<lambda>d' d. (d', drop (nat (limit - 1)) (Snapshots d))) disks' disks"
    using len by (simp add: list_eq_iff_nth_eq d' n)
  with assms show "scheduleDisks limit disks'
                = Inr (map2 (\<lambda>d' d. (d', drop (nat (limit - 1)) (Snapshots d))) disks' disks)"
    by (simp add: scheduleDisks_drop)
qed
theorem created_is_kept_witness:
  "(1::int) \<le> 2
   \<and> scheduleDisk 2 (diskA\<lparr>Snapshots := newA # [s3, s2, s1]\<rparr>) = Inr [s2, s1]
   \<and> createPhase envOk False [diskA, diskB] [Suc 0, 0] []
       = Returns ([diskA\<lparr>Snapshots := newB # Snapshots diskA\<rparr>,
                   diskB\<lparr>Snapshots := newA # Snapshots diskB\<rparr>], [newB, newA])
           [createCmd diskB (Name newB), createCmd diskA (Name newA)]
   \<and> scheduleDisks 2 [diskA\<lparr>Snapshots := newB # Snapshots diskA\<rparr>,
                        diskB\<lparr>Snapshots := newA # Snapshots diskB\<rparr>]
       = Inr [(diskA\<lparr>Snapshots := newB # Snapshots diskA\<rparr>, [s2, s1]),
              (diskB\<lparr>Snapshots := newA # Snapshots diskB\<rparr>, [])]"
  using created_is_kept [where limit = 2 and disk = diskA and snapshotCreated = newA
          and old = "[s3, s2, s1]" and env = envOk and dryRun = False
          and disks = "[diskA, diskB]" and order = "[Suc 0, 0]" and c = "[]"
          and disks' = "[diskA\<lparr>Snapshots := newB # Snapshots diskA\<rparr>,
                         diskB\<lparr>Snapshots := newA # Snapshots diskB\<rparr>]"
          and snapshotsCreated' = "[newB, newA]"
          and c' = "[createCmd diskB (Name newB), createCmd diskA (Name newA)]"]
    createPhase_envOk
  by (simp add: Snapshots_diskA Snapshots_diskB)

text \<open>
  C2, as the claim states it, fails. The disk \<open>prod-orders-eu-west-1\<close> has N = 3
  snapshots and the limit is L = 2: the dry run reports 2 snapshots deleted, not
  \<open>max(0, N - L) = 1\<close>, and of the three old snapshots only \<open>s3\<close> remains, not
  \<open>min(N, L) = 2\<close> of them. (With N read as the number after creation, 4, the reported
  number agrees and the remaining old snapshots, 1, are still not \<open>min(4, 2)\<close>.)
\<close>

theorem retention_counts_counterexample:
  "run envOk 2 True [diskA] [0] []
     = Returns \<lparr>disksBackuped = [diskA\<lparr>Snapshots := [newA, s3, s2, s1]\<rparr>], created = [newA],
                 createdCount = 1,
                 deleted = [(diskA\<lparr>Snapshots := [newA, s3, s2, s1]\<rparr>, [s2, s1])],
                 cleaned = [(''prod-orders-eu-west-1'', 2)]\<rparr> []
   \<and> length (Snapshots diskA) = 3
   \<and> (2::int) \<noteq> max 0 (int (length (Snapshots diskA)) - 2)
   \<and> [newA, s3, s2, s1] = [newA, s3] @ [s2, s1]
   \<and> length [s3] \<noteq> min (length (Snapshots diskA)) 2
   \<and> length [s3] \<noteq> min (length [newA, s3, s2, s1]) 2"
proof -
  have n: "newA = \<lparr>Name = Name newA, Id = []\<rparr>" by (simp add: newA_def)
  have t: "clock envOk 0 = t0" by (simp add: envOk_def)
  have c: "createTask envOk True [diskA] 0 [] = Returns newA []"
    using n by (simp add: createTask_def createSnapshotForDisk_def t snapshotName_diskA)
  have s: "scheduleDisks 2 [diskA\<lparr>Snapshots := [newA, s3, s2, s1]\<rparr>]
             = Inr [(diskA\<lparr>Snapshots := [newA, s3, s2, s1]\<rparr>, [s2, s1])]"
    using scheduleDisks_drop [of 2 "[diskA\<lparr>Snapshots := [newA, s3, s2, s1]\<rparr>]"]
    by (simp add: numeral_2_eq_2)
  have l: "cleanedLine 2 (diskA\<lparr>Snapshots := [newA, s3, s2, s1]\<rparr>) = (''prod-orders-eu-west-1'', 2)"
    by (simp add: cleanedLine_def Max_def diskA_def)
  have r: "run envOk 2 True [diskA] [0] []
     = Returns \<lparr>disksBackuped = [diskA\<lparr>Snapshots := [newA, s3, s2, s1]\<rparr>], created = [newA],
                 createdCount = 1,
                 deleted = [(diskA\<lparr>Snapshots := [newA, s3, s2, s1]\<rparr>, [s2, s1])],
                 cleaned = [(''prod-orders-eu-west-1'', 2)]\<rparr> []"
  proof -
    have cp: "createPhase envOk True [diskA] [0] []
                = Returns ([diskA\<lparr>Snapshots := [newA, s3, s2, s1]\<rparr>], [newA]) []"
      by (simp add: createPhase_def c Snapshots_diskA)
    have dp: "deletePhase envOk True 2 [diskA\<lparr>Snapshots := [newA, s3, s2, s1]\<rparr>] []
                = Returns ([(diskA\<lparr>Snapshots := [newA, s3, s2, s1]\<rparr>, [s2, s1])],
                           [(''prod-orders-eu-west-1'', 2)]) []"
      unfolding deletePhase_def s cleanDisks_dry
      by (simp add: l arrival_envOk_one cleanedFanIn_one)
    show ?thesis unfolding run_def cp by (simp add: dp)
  qed
  show ?thesis using r by (simp add: Snapshots_diskA)
qed

text \<open>
  C2, amended. Let a disk have N snapshots after the creation phase (the old ones and
  the one put in front of them in this run) and let the limit be \<open>L >= 0\<close>. The
  snapshots scheduled for deletion are the last \<open>max(0, N - L)\<close> of the sequence, this
  is the number reported for the disk, and the first \<open>min(N, L)\<close> snapshots of the
  sequence remain. When the retention phase is completed, and each disk has arrived
  once on \<open>oldSnapshotsDeleted\<close>, every disk has been reported once, with exactly its
  scheduled snapshots deleted and with their number in its line; when the run is not
  a dry run, the commands issued by the phase are the deletions of these snapshots,
  one for each, and nothing else; a dry run issues no command and always completes the
  phase.
\<close>

theorem retention_counts:
  assumes "0 \<le> limit"
    and "mset (arrival env (length disks)) = mset [0..<length disks]"
  shows "(\<exists>candidates. scheduleDisk limit disk = Inr candidates
            \<and> Snapshots disk = take (nat limit) (Snapshots disk) @ candidates
            \<and> int (length candidates) = max 0 (int (length (Snapshots disk)) - limit)
            \<and> int (length (Snapshots disk)) - int (length candidates)
                 = min (int (length (Snapshots disk))) limit
            \<and> cleanedLine limit disk = (DName disk, int (length candidates)))
         \<and> (deletePhase env dryRun limit disks c = Returns (results, lines) c' \<longrightarrow>
              mset results = mset (map (\<lambda>d. (d, drop (nat limit) (Snapshots d))) disks)
              \<and> lines = map (\<lambda>(d, ss). (DName d, int (length ss))) results
              \<and> (\<forall>(d, ss) \<in> set results.
                    int (length ss) = max 0 (int (length (Snapshots d)) - limit))
              \<and> (\<exists>news. c' = c @ news
                    \<and> mset news
                        = (if dryRun then {#}
                           else mset (concat (map (\<lambda>d. map deleteCmd (drop (nat limit) (Snapshots d)))
                                                disks)))))
         \<and> (\<exists>results lines. deletePhase env True limit disks c = Returns (results, lines) c)"
proof (intro conjI impI)
  show "\<exists>candidates. scheduleDisk limit disk = Inr candidates
            \<and> Snapshots disk = take (nat limit) (Snapshots disk) @ candidates
            \<and> int (length candidates) = max 0 (int (length (Snapshots disk)) - limit)
            \<and> int (length (Snapshots disk)) - int (length candidates)
                 = min (int (length (Snapshots disk))) limit
            \<and> cleanedLine limit disk = (DName disk, int (length candidates))"
    using assms(1) by (auto simp: scheduleDisk_drop cleanedLine_def Max_max)
next
  let ?plan = "map (\<lambda>d. (d, drop (nat limit) (Snapshots d))) disks"
  have perm: "mset (arrival env (length disks)) = mset [0..<length ?plan]"
    using assms(2) by simp
  have fan: "cleanedFanIn (length disks) ?plan (arrival env (length disks))
               = Some (map (\<lambda>i. ?plan ! i) (arrival env (length disks)))"
    and ms: "mset (map (\<lambda>i. ?plan ! i) (arrival env (length disks))) = mset ?plan"
    using cleanedFanIn_permutation [OF perm] by simp_all
  have sched: "scheduleDisks limit disks = Inr ?plan"
    using assms(1) by (rule scheduleDisks_drop)
  show "\<exists>results lines. deletePhase env True limit disks c = Returns (results, lines) c"
    unfolding deletePhase_def sched cleanDisks_dry using fan by simp
  assume r: "deletePhase env dryRun limit disks c = Returns (results, lines) c'"
  from deletePhase_Returns [OF assms(1) r] fan
  have res: "results = map (\<lambda>i. ?plan ! i) (arrival env (length disks))"
    and l: "lines = map (\<lambda>(disk, ss). cleanedLine limit disk) results"
    and c': "c' = c @ (if dryRun then [] else startedDeletes ?plan)"
    by simp_all
  show m: "mset results = mset ?plan" using res ms by simp
  have each: "int (length ss) = max 0 (int (length (Snapshots d)) - limit)
              \<and> cleanedLine limit d = (DName d, int (length ss))"
    if "(d, ss) \<in> set results" for d ss
  proof -
    from that m have "(d, ss) \<in> set ?plan" using mset_eq_setD by blast
    then have "ss = drop (nat limit) (Snapshots d)" by auto
    then show ?thesis using assms(1) by (auto simp: cleanedLine_def Max_max)
  qed
  show "\<forall>(d, ss) \<in> set results. int (length ss) = max 0 (int (length (Snapshots d)) - limit)"
    using each by blast
  show "lines = map (\<lambda>(d, ss). (DName d, int (length ss))) results"
    unfolding l using each by (auto simp: map_eq_conv)
  have "startedDeletes ?plan
          = concat (map (\<lambda>d. map deleteCmd (drop (nat limit) (Snapshots d))) disks)"
    by (simp add: startedDeletes_def comp_def)
  with c' show "\<exists>news. c' = c @ news
                    \<and> mset news
                        = (if dryRun then {#}
                           else mset (concat (map (\<lambda>d. map deleteCmd (drop (nat limit) (Snapshots d)))
                                                disks)))"
    by auto
qed

lemma deletePhase_envOk_two:
  "deletePhase envOk False 2
     [diskA\<lparr>Snapshots := [newA, s3, s2, s1]\<rparr>, diskB\<lparr>Snapshots := [newB]\<rparr>] []
     = Returns ([(diskB\<lparr>Snapshots := [newB]\<rparr>, []),
                 (diskA\<lparr>Snapshots := [newA, s3, s2, s1]\<rparr>, [s2, s1])],
                [(''db'', 0), (''prod-orders-eu-west-1'', 2)])
         [deleteCmd s2, deleteCmd s1]"
proof -
  let ?a = "diskA\<lparr>Snapshots := [newA, s3, s2, s1]\<rparr>" and ?b = "diskB\<lparr>Snapshots := [newB]\<rparr>"
  have s: "scheduleDisks 2 [?a, ?b] = Inr [(?a, [s2, s1]), (?b, [])]"
    using scheduleDisks_drop [of 2 "[?a, ?b]"] by (simp add: numeral_2_eq_2)
  have d: "deleteTask envOk False x c = Returns x (c @ [deleteCmd x])" for x c
    by (simp add: deleteTask_def deleteSnapshot_def provider_envOk getCommandResult_ok
          okProvider_def)
  have cd: "cleanDisks envOk False [(?a, [s2, s1]), (?b, [])] []
              = Returns [(?a, [s2, s1]), (?b, [])] [deleteCmd s2, deleteCmd s1]"
    by (simp add: d)
  have ar: "arrival envOk (Suc (Suc 0)) = [Suc 0, 0]"
    by (simp add: envOk_def upt_rec)
  have f: "cleanedFanIn (Suc (Suc 0)) [(?a, [s2, s1]), (?b, [])] [Suc 0, 0]
             = Some [(?b, []), (?a, [s2, s1])]"
    by (simp add: cleanedFanIn_def)
  have la: "cleanedLine 2 ?a = (''prod-orders-eu-west-1'', 2)"
    by (simp add: cleanedLine_def Max_def diskA_def)
  have lb: "cleanedLine 2 ?b = (''db'', 0)"
    by (simp add: cleanedLine_def Max_def diskB_def)
  show ?thesis
    unfolding deletePhase_def s
    by (simp add: cd ar f la lb del: cleanDisks.simps deleteTasks.simps)
qed

theorem retention_counts_witness:
  "(0::int) \<le> 2
   \<and> mset (arrival envOk (length [diskA\<lparr>Snapshots := [newA, s3, s2, s1]\<rparr>,
                                   diskB\<lparr>Snapshots := [newB]\<rparr>]))
       = mset [0..<length [diskA\<lparr>Snapshots := [newA, s3, s2, s1]\<rparr>,
                            diskB\<lparr>Snapshots := [newB]\<rparr>]]
   \<and> deletePhase envOk False 2
        [diskA\<lparr>Snapshots := [newA, s3, s2, s1]\<rparr>, diskB\<lparr>Snapshots := [newB]\<rparr>] []
       = Returns ([(diskB\<lparr>Snapshots := [newB]\<rparr>, []),
                   (diskA\<lparr>Snapshots := [newA, s3, s2, s1]\<rparr>, [s2, s1])],
                  [(''db'', 0), (''prod-orders-eu-west-1'', 2)])
           [deleteCmd s2, deleteCmd s1]
   \<and> scheduleDisk 2 (diskA\<lparr>Snapshots := [newA, s3, s2, s1]\<rparr>) = Inr [s2, s1]
   \<and> cleanedLine 2 (diskA\<lparr>Snapshots := [newA, s3, s2, s1]\<rparr>) = (''prod-orders-eu-west-1'', 2)
   \<and> mset [(diskB\<lparr>Snapshots := [newB]\<rparr>, []),
            (diskA\<lparr>Snapshots := [newA, s3, s2, s1]\<rparr>, [s2, s1])]
       = mset [(diskA\<lparr>Snapshots := [newA, s3, s2, s1]\<rparr>, [s2, s1]),
               (diskB\<lparr>Snapshots := [newB]\<rparr>, [])]
   \<and> (\<exists>news. [deleteCmd s2, deleteCmd s1] = [] @ news
                \<and> mset news = mset [deleteCmd s2, deleteCmd s1])"
proof -
  let ?a = "diskA\<lparr>Snapshots := [newA, s3, s2, s1]\<rparr>" and ?b = "diskB\<lparr>Snapshots := [newB]\<rparr>"
  have lim: "(0::int) \<le> 2" by simp
  have perm: "mset (arrival envOk (length [?a, ?b])) = mset [0..<length [?a, ?b]]"
    by (simp add: envOk_def)
  note inst = retention_counts [OF lim perm, where disk = ?a and dryRun = False and c = "[]"
      and results = "[(?b, []), (?a, [s2, s1])]"
      and lines = "[(''db'', 0), (''prod-orders-eu-west-1'', 2)]"
      and c' = "[deleteCmd s2, deleteCmd s1]"]
  from inst deletePhase_envOk_two lim perm show ?thesis
    by (auto simp: numeral_2_eq_2 diskA_def)
qed

section \<open>Properties of the dry run\<close>

lemma createTask_dry_of_real:
  "createTask env dryRun disks i c = Returns snapshot c' \<Longrightarrow>
   createTask env True disks i c0 = Returns snapshot c0"
  by (auto simp: createTask_def createSnapshotForDisk_def Let_def andThen_Returns log_Fatal_def
        split: sum.splits if_splits option.splits)

lemma createTasks_dry_of_real:
  "createTasks env dryRun disks order c = Returns channel c' \<Longrightarrow>
   createTasks env True disks order c0 = Returns channel c0"
proof (induction order arbitrary: c channel c')
  case Nil
  then show ?case by simp
next
  case (Cons i order)
  show ?case
  proof (cases "i < length disks")
    case False
    with Cons show ?thesis by simp
  next
    case True
    with Cons.prems obtain s c1 rest where
      t: "createTask env dryRun disks i c = Returns s c1" and
      r: "createTasks env dryRun disks order c1 = Returns rest c'" and
      ch: "channel = s # rest"
      by (auto simp: andThen_Returns)
    from createTask_dry_of_real [OF t] Cons.IH [OF r] ch True show ?thesis by simp
  qed
qed

lemma createPhase_dry_of_real:
  assumes "createPhase env dryRun disks order c = Returns a c'"
  shows "createPhase env True disks order c0 = Returns a c0"
proof -
  from assms obtain channel c1 where
    t: "createTasks env dryRun disks order c = Returns channel c1" and
    f: "(case fanIn disks channel of None \<Rightarrow> Blocks c1
         | Some disks' \<Rightarrow> Returns (disks', take (length disks) channel) c1) = Returns a c'"
    by (auto simp: createPhase_def andThen_Returns)
  from f obtain disks' where "fanIn disks channel = Some disks'"
    and "a = (disks', take (length disks) channel)"
    by (auto split: option.splits)
  with createTasks_dry_of_real [OF t, of c0] show ?thesis
    by (simp add: createPhase_def)
qed

lemma deletePhase_dry_of_real:
  assumes "deletePhase env dryRun limit disks c = Returns a c'"
  shows "deletePhase env True limit disks c0 = Returns a c0"
proof -
  from assms obtain plan where p: "scheduleDisks limit disks = Inr plan"
    by (auto simp: deletePhase_def split: sum.splits)
  with assms obtain sent c1 where
    r: "cleanDisks env dryRun plan c = Returns sent c1" and
    f: "(case cleanedFanIn (length disks) sent (arrival env (length disks)) of
           None \<Rightarrow> Blocks c1
         | Some results \<Rightarrow>
             Returns (results, map (\<lambda>(disk, ss). cleanedLine limit disk) results) c1)
        = Returns a c'"
    by (auto simp: deletePhase_def andThen_Returns)
  from cleanDisks_Returns [OF r] have sent: "sent = plan" by simp
  from f obtain results where
    "cleanedFanIn (length disks) sent (arrival env (length disks)) = Some results"
    and "a = (results, map (\<lambda>(disk, ss). cleanedLine limit disk) results)"
    by (auto split: option.splits)
  with p sent show ?thesis by (simp add: deletePhase_def cleanDisks_dry)
qed

lemma run_dry_of_real:
  assumes "run env limit dryRun disks order c = Returns r c'"
  shows "run env limit True disks order c0 = Returns r c0"
proof -
  from run_Returns [OF assms] obtain disks' snapshotsCreated c1 results lines where
    cp: "createPhase env dryRun disks order c = Returns (disks', snapshotsCreated) c1" and
    dp: "deletePhase env dryRun limit disks' c1 = Returns (results, lines) c'" and
    r: "r = \<lparr>disksBackuped = disks', created = snapshotsCreated,
                 createdCount = int (length disks), deleted = results, cleaned = lines\<rparr>"
    by blast
  from createPhase_dry_of_real [OF cp, of c0] deletePhase_dry_of_real [OF dp, of c0] r
  show ?thesis by (simp add: run_def)
qed

lemma isListing_cmds: "isListing (listDisksCmd f)" "isListing (listSnapshotsCmd d)"
  by (simp_all add: isListing_def isCreate_def isDelete_def listDisksCmd_def listSnapshotsCmd_def)

lemma issues_getDisksToSnapshot:
  "issues (provider env) isListing c (getDisksToSnapshot env f c)"
  unfolding getDisksToSnapshot_def Let_def
  by (rule issues_andThen [OF issues_getCommandResult])
     (auto split: option.splits intro: issues_Returns isListing_cmds)

lemma issues_getDiskSnapshots:
  "issues (provider env) isListing c (getDiskSnapshots env d c)"
  unfolding getDiskSnapshots_def Let_def
  by (rule issues_andThen [OF issues_getCommandResult])
     (auto split: option.splits intro: issues_Returns isListing_cmds)

lemma issues_loadSnapshots:
  "issues (provider env) isListing c (loadSnapshots env disks c)"
proof (induction disks arbitrary: c)
  case Nil
  show ?case by (simp add: issues_Returns)
next
  case (Cons d disks)
  show ?case
    unfolding loadSnapshots.simps
    by (rule issues_andThen [OF issues_getDiskSnapshots])
       (auto split: option.splits intro!: issues_log_Fatal issues_andThen Cons.IH issues_Returns)
qed

lemma callsOf_createTasks_dry: "callsOf (createTasks env True disks order c) = c"
proof (induction order)
  case Nil
  show ?case by simp
next
  case (Cons i order)
  show ?case
  proof (cases "i < length disks")
    case False
    with Cons show ?thesis by simp
  next
    case True
    obtain name where n: "snapshotName (DName (disks ! i)) (DId (disks ! i)) (clock env i) = Inr name"
      using snapshotName_returns by blast
    then have "createTask env True disks i c = Returns \<lparr>Name = name, Id = []\<rparr> c"
      by (simp add: createTask_def createSnapshotForDisk_def)
    with True Cons show ?thesis by (cases "createTasks env True disks order c") simp_all
  qed
qed

lemma callsOf_createPhase_dry: "callsOf (createPhase env True disks order c) = c"
proof -
  have "callsOf (createTasks env True disks order c) = c" by (rule callsOf_createTasks_dry)
  then show ?thesis
    by (cases "createTasks env True disks order c")
       (auto simp: createPhase_def split: option.splits)
qed

lemma callsOf_deletePhase_dry: "callsOf (deletePhase env True limit disks c) = c"
  by (auto simp: deletePhase_def cleanDisks_dry split: sum.splits option.splits)

lemma callsOf_run_dry: "callsOf (run env limit True disks order c) = c"
proof (cases "createPhase env True disks order c")
  case (Returns a c1)
  obtain disks' snapshotsCreated where a: "a = (disks', snapshotsCreated)" by (cases a)
  from callsOf_createPhase_dry [of env disks order c] Returns have c1: "c1 = c" by simp
  from run_after_create [of env True disks order c disks' snapshotsCreated c1 limit] Returns a c1
  show ?thesis by (simp add: callsOf_deletePhase_dry)
next
  case (Exits c1)
  with callsOf_createPhase_dry [of env disks order c] show ?thesis by (simp add: run_def)
next
  case (Panics p c1)
  with callsOf_createPhase_dry [of env disks order c] show ?thesis by (simp add: run_def)
next
  case (Blocks c1)
  with callsOf_createPhase_dry [of env disks order c] show ?thesis by (simp add: run_def)
qed

lemma exited_createTasks_dry: "\<not> exited (createTasks env True disks order c)"
proof (induction order)
  case Nil
  show ?case by simp
next
  case (Cons i order)
  show ?case
  proof (cases "i < length disks")
    case False
    with Cons show ?thesis by simp
  next
    case True
    obtain name where n: "snapshotName (DName (disks ! i)) (DId (disks ! i)) (clock env i) = Inr name"
      using snapshotName_returns by blast
    then have "createTask env True disks i c = Returns \<lparr>Name = name, Id = []\<rparr> c"
      by (simp add: createTask_def createSnapshotForDisk_def)
    with True Cons show ?thesis by (cases "createTasks env True disks order c") simp_all
  qed
qed

lemma issues_nothing: "callsOf out = c \<Longrightarrow> \<not> exited out \<Longrightarrow> issues prov P c out"
  by (simp add: issues_def)

lemma not_exited_run_dry: "\<not> exited (run env limit True disks order c)"
proof -
  have t: "\<not> exited (createTasks env True disks order c)" by (rule exited_createTasks_dry)
  have cp: "\<not> exited (createPhase env True disks order c)"
    using t by (cases "createTasks env True disks order c")
               (auto simp: createPhase_def split: option.splits)
  have dp: "\<not> exited (deletePhase env True limit ds c1)" for ds c1
    by (auto simp: deletePhase_def cleanDisks_dry split: sum.splits option.splits)
  show ?thesis
  proof (cases "createPhase env True disks order c")
    case (Returns a c1)
    obtain disks' snapshotsCreated where a: "a = (disks', snapshotsCreated)" by (cases a)
    from run_after_create [of env True disks order c disks' snapshotsCreated c1 limit] Returns a dp
    show ?thesis by simp
  next
    case (Exits c1)
    with cp show ?thesis by simp
  next
    case (Panics p c1)
    then show ?thesis by (simp add: run_def)
  next
    case (Blocks c1)
    then show ?thesis by (simp add: run_def)
  qed
qed

lemma issues_run_dry: "issues prov P c (run env limit True disks order c)"
  by (rule issues_nothing [OF callsOf_run_dry not_exited_run_dry])

lemma issues_load_run_dry:
  "issues (provider env) isListing c1
     (andThen (loadSnapshots env disks c1)
        (\<lambda>disks c'. andThen (run env limit True disks (sched env (length disks)) c')
           (\<lambda>r c''. Returns (BackupComplete r) c'')))"
  by (intro issues_andThen issues_loadSnapshots issues_run_dry issues_Returns)

lemma issues_main_dry: "issues (provider env) isListing [] (main env f limit True)"
  unfolding main_def
  by (rule issues_andThen [OF issues_getDisksToSnapshot])
     (auto split: option.splits intro: issues_log_Fatal issues_Returns issues_load_run_dry)

lemma main_dry_of_real:
  assumes "main env f limit dryRun = Returns m cs"
  shows "\<exists>cs'. main env f limit True = Returns m cs'"
proof -
  from assms obtain disks disksErr c1 where
    g: "getDisksToSnapshot env f [] = Returns (disks, disksErr) c1" and
    rest: "(case disksErr of
              Some e \<Rightarrow> andThen (log_Fatal c1) (\<lambda>_ c'. Returns AfterFatal c')
            | None \<Rightarrow>
                if length disks = 0 then Returns NoDiskToSnapshot c1
                else andThen (loadSnapshots env disks c1)
                       (\<lambda>disks c'. andThen (run env limit dryRun disks (sched env (length disks)) c')
                          (\<lambda>r c''. Returns (BackupComplete r) c''))) = Returns m cs"
    by (auto simp: main_def andThen_Returns)
  from rest have none: "disksErr = None"
    by (cases disksErr) (simp_all add: log_Fatal_def)
  show ?thesis
  proof (cases "length disks = 0")
    case True
    with rest none g show ?thesis by (auto simp: main_def)
  next
    case False
    with rest none obtain disks2 c2 r where
      l: "loadSnapshots env disks c1 = Returns disks2 c2" and
      r: "run env limit dryRun disks2 (sched env (length disks2)) c2 = Returns r cs" and
      m: "m = BackupComplete r"
      by (auto simp: andThen_Returns)
    from run_dry_of_real [OF r, of c2] g none False l m show ?thesis
      by (simp add: main_def)
  qed
qed

text \<open>
  C6. In a dry run \<open>main\<close> issues no snapshot creation and no snapshot deletion, whatever
  the provider answers and however the run ends; between the loading of the inventory
  and the end of the run it issues no command at all. Whenever the pass that is not a
  dry run completes, the dry run on the same inventory completes with the same report:
  the same snapshot names, the same snapshots per disk, the same number of created
  snapshots and the same number of deleted snapshots for each disk.
\<close>

theorem dry_run_issues_no_mutation:
  "(\<forall>cmd \<in> set (callsOf (main env f limit True)). \<not> isCreate cmd \<and> \<not> isDelete cmd)
   \<and> callsOf (run env limit True disks order c) = c
   \<and> (run env limit False disks order c = Returns r c' \<longrightarrow>
        run env limit True disks order c = Returns r c)
   \<and> (main env f limit False = Returns m cs \<longrightarrow> (\<exists>cs'. main env f limit True = Returns m cs'))"
proof (intro conjI impI)
  from issues_main_dry [of env f limit]
  show "\<forall>cmd \<in> set (callsOf (main env f limit True)). \<not> isCreate cmd \<and> \<not> isDelete cmd"
    by (auto simp: issues_def isListing_def)
next
  show "callsOf (run env limit True disks order c) = c" by (rule callsOf_run_dry)
next
  assume "run env limit False disks order c = Returns r c'"
  then show "run env limit True disks order c = Returns r c" by (rule run_dry_of_real)
next
  assume "main env f limit False = Returns m cs"
  then show "\<exists>cs'. main env f limit True = Returns m cs'" by (rule main_dry_of_real)
qed

lemma main_envOk_real:
  "main envOk ''name = db'' 2 False
     = Returns (BackupComplete
                  \<lparr>disksBackuped = [diskB\<lparr>Snapshots := [newB, s3, s2, s1]\<rparr>], created = [newB],
                   createdCount = 1,
                   deleted = [(diskB\<lparr>Snapshots := [newB, s3, s2, s1]\<rparr>, [s2, s1])],
                   cleaned = [(''db'', 2)]\<rparr>)
         [listDisksCmd ''name = db'', listSnapshotsCmd diskB, createCmd diskB (Name newB),
          deleteCmd s2, deleteCmd s1]"
proof -
  let ?d = "diskB\<lparr>Snapshots := [s3, s2, s1]\<rparr>"
  let ?d' = "diskB\<lparr>Snapshots := [newB, s3, s2, s1]\<rparr>"
  have g: "getDisksToSnapshot envOk ''name = db'' []
             = Returns ([diskB], None) [listDisksCmd ''name = db'']"
    by (simp add: getDisksToSnapshot_def provider_envOk getCommandResult_ok okProvider_def
          json_Unmarshal_def envOk_def)
  have l: "loadSnapshots envOk [diskB] [listDisksCmd ''name = db'']
             = Returns [?d] [listDisksCmd ''name = db'', listSnapshotsCmd diskB]"
    by (simp add: getDiskSnapshots_def provider_envOk getCommandResult_ok okProvider_def
          json_Unmarshal_def envOk_def)
  have n: "newB = \<lparr>Name = Name newB, Id = []\<rparr>" by (simp add: newB_def)
  have t: "clock envOk 0 = t0" "sched envOk (Suc 0) = [0]" by (simp_all add: envOk_def)
  have c: "createTask envOk False [?d] 0 c = Returns newB (c @ [createCmd ?d (Name newB)])" for c
    using n by (simp add: createTask_def createSnapshotForDisk_def t snapshotName_diskB
                  provider_envOk getCommandResult_ok okProvider_def)
  have cc: "createCmd ?d (Name newB) = createCmd diskB (Name newB)"
    by (simp add: createCmd_def)
  have cp: "createPhase envOk False [?d] [0] c
              = Returns ([?d'], [newB]) (c @ [createCmd diskB (Name newB)])" for c
    by (simp add: createPhase_def c cc)
  have s: "scheduleDisks 2 [?d'] = Inr [(?d', [s2, s1])]"
    using scheduleDisks_drop [of 2 "[?d']"] by (simp add: numeral_2_eq_2)
  have d: "deleteTask envOk False x c = Returns x (c @ [deleteCmd x])" for x c
    by (simp add: deleteTask_def deleteSnapshot_def provider_envOk getCommandResult_ok
          okProvider_def)
  have line: "cleanedLine 2 ?d' = (''db'', 2)"
    by (simp add: cleanedLine_def Max_def diskB_def)
  have dp: "deletePhase envOk False 2 [?d'] c
              = Returns ([(?d', [s2, s1])], [(''db'', 2)]) (c @ [deleteCmd s2, deleteCmd s1])" for c
    unfolding deletePhase_def s by (simp add: d line arrival_envOk_one cleanedFanIn_one)
  have r: "run envOk 2 False [?d] [0] c
             = Returns \<lparr>disksBackuped = [?d'], created = [newB], createdCount = 1,
                         deleted = [(?d', [s2, s1])], cleaned = [(''db'', 2)]\<rparr>
                 (c @ [createCmd diskB (Name newB), deleteCmd s2, deleteCmd s1])" for c
    unfolding run_def cp by (simp add: dp)
  show ?thesis
    unfolding main_def g by (simp add: l t r del: loadSnapshots.simps)
qed

theorem dry_run_issues_no_mutation_witness:
  "main envOk ''name = db'' 2 False
     = Returns (BackupComplete
                  \<lparr>disksBackuped = [diskB\<lparr>Snapshots := [newB, s3, s2, s1]\<rparr>], created = [newB],
                   createdCount = 1,
                   deleted = [(diskB\<lparr>Snapshots := [newB, s3, s2, s1]\<rparr>, [s2, s1])],
                   cleaned = [(''db'', 2)]\<rparr>)
         [listDisksCmd ''name = db'', listSnapshotsCmd diskB, createCmd diskB (Name newB),
          deleteCmd s2, deleteCmd s1]
   \<and> (\<exists>cs'. main envOk ''name = db'' 2 True
         = Returns (BackupComplete
                  \<lparr>disksBackuped = [diskB\<lparr>Snapshots := [newB, s3, s2, s1]\<rparr>], created = [newB],
                   createdCount = 1,
                   deleted = [(diskB\<lparr>Snapshots := [newB, s3, s2, s1]\<rparr>, [s2, s1])],
                   cleaned = [(''db'', 2)]\<rparr>) cs'
         \<and> (\<forall>cmd \<in> set cs'. \<not> isCreate cmd \<and> \<not> isDelete cmd))"
proof -
  let ?r = "\<lparr>disksBackuped = [diskB\<lparr>Snapshots := [newB, s3, s2, s1]\<rparr>], created = [newB],
             createdCount = 1,
             deleted = [(diskB\<lparr>Snapshots := [newB, s3, s2, s1]\<rparr>, [s2, s1])],
             cleaned = [(''db'', 2)]\<rparr>"
  note inst = dry_run_issues_no_mutation
    [where env = envOk and f = "''name = db''" and limit = 2 and m = "BackupComplete ?r"
       and cs = "[listDisksCmd ''name = db'', listSnapshotsCmd diskB,
                  createCmd diskB (Name newB), deleteCmd s2, deleteCmd s1]"]
  from inst main_envOk_real obtain cs' where
    dry: "main envOk ''name = db'' 2 True = Returns (BackupComplete ?r) cs'"
    by blast
  from inst have "\<forall>cmd \<in> set (callsOf (main envOk ''name = db'' 2 True)).
                   \<not> isCreate cmd \<and> \<not> isDelete cmd"
    by blast
  with dry have "\<forall>cmd \<in> set cs'. \<not> isCreate cmd \<and> \<not> isDelete cmd" by simp
  with dry main_envOk_real show ?thesis by blast
qed

end
